theory Spec2Isabelle
  imports Complex_Main "HOL-Library.Sublist"
begin

section \<open>JavaScript strings\<close>

text \<open>
  A JavaScript string is a sequence of UTF-16 code units. A code unit is modelled by its
  number, so that \<open>String.prototype.trim\<close> and the negated class \<open>[^/]\<close> range over
  every code unit and not only over the 8-bit ones. \<open>js\<close> turns a literal of the source
  (all of them ASCII) into its code units.
\<close>

type_synonym ustring = "nat list"

definition js :: "string \<Rightarrow> ustring" where
  "js cs = map of_char cs"

text \<open>
  \<open>WhiteSpace\<close> and \<open>LineTerminator\<close> of ECMAScript, the code units that
  \<open>trim\<close> strips: TAB, LF, VT, FF, CR, SP, NBSP, U+1680, U+2000 to U+200A, LS, PS, U+202F,
  U+205F, U+3000 and the byte order mark U+FEFF.
\<close>

definition isWhiteSpace :: "nat \<Rightarrow> bool" where
  "isWhiteSpace c \<longleftrightarrow>
     (9 \<le> c \<and> c \<le> 13) \<or> c = 32 \<or> c = 160 \<or> c = 5760 \<or> (8192 \<le> c \<and> c \<le> 8202) \<or>
     c = 8232 \<or> c = 8233 \<or> c = 8239 \<or> c = 8287 \<or> c = 12288 \<or> c = 65279"

definition trim :: "ustring \<Rightarrow> ustring" where
  "trim s = rev (dropWhile isWhiteSpace (rev (dropWhile isWhiteSpace s)))"

text \<open>\<open>s.includes(t)\<close>: \<open>t\<close> occurs in \<open>s\<close> at some index.\<close>

fun includes_str :: "ustring \<Rightarrow> ustring \<Rightarrow> bool" where
  "includes_str [] t = (t = [])"
| "includes_str (c # s) t = (prefix t (c # s) \<or> includes_str s t)"

section \<open>Regular expressions\<close>

text \<open>
  The constructs the eight regular-expression literals of \<open>TikTokDownloader.ts\<close> use:
  literal text, the greedy optional group \<open>(?:r)?\<close> (and \<open>s?\<close>), a greedy \<open>+\<close> over a
  character class, concatenation, one capturing group and the anchor \<open>^\<close>. No literal
  carries a flag.
\<close>

datatype cset = Digit | AlphaNum | NotSlash

fun cls :: "cset \<Rightarrow> nat \<Rightarrow> bool" where
  "cls Digit c = (48 \<le> c \<and> c \<le> 57)"
| "cls AlphaNum c = ((65 \<le> c \<and> c \<le> 90) \<or> (97 \<le> c \<and> c \<le> 122) \<or> (48 \<le> c \<and> c \<le> 57))"
| "cls NotSlash c = (c \<noteq> 47)"

datatype regex =
    Lit string
  | Opt regex
  | Plus cset
  | Cat regex regex
  | Capture regex
  | Bol

text \<open>
  A state of the backtracking matcher: the index reached in the input, the rest of the
  input from there, and what group 1 has captured.
\<close>

type_synonym mstate = "nat \<times> ustring \<times> ustring option"

text \<open>
  \<open>plus_lens k s\<close>: the numbers of code units a greedy \<open>[k]+\<close> can take at the front of
  \<open>s\<close>, the longest first.
\<close>

fun plus_lens :: "cset \<Rightarrow> ustring \<Rightarrow> nat list" where
  "plus_lens k [] = []"
| "plus_lens k (c # s) = (if cls k c then map Suc (plus_lens k s) @ [1] else [])"

text \<open>
  \<open>m r st\<close>: every state in which \<open>r\<close> can end when started in \<open>st\<close>, in the order in
  which a backtracking engine tries them.
\<close>

fun m :: "regex \<Rightarrow> mstate \<Rightarrow> mstate list" where
  "m (Lit cs) (i, s, c) =
     (if prefix (js cs) s then [(i + length cs, drop (length cs) s, c)] else [])"
| "m (Opt r) st = m r st @ [st]"
| "m (Plus k) (i, s, c) = map (\<lambda>n. (i + n, drop n s, c)) (plus_lens k s)"
| "m (Cat r1 r2) st = concat (map (m r2) (m r1 st))"
| "m (Capture r) (i, s, c) = map (\<lambda>(j, s', c'). (j, s', Some (take (j - i) s))) (m r (i, s, c))"
| "m Bol (i, s, c) = (if i = 0 then [(i, s, c)] else [])"

text \<open>
  The result of \<open>RegExp.prototype.exec\<close> on a regular expression without the \<open>g\<close> flag:
  the match at the leftmost index where there is one, as its text (\<open>match[0]\<close>) and group 1
  (\<open>match[1]\<close>); \<open>None\<close> is \<open>null\<close>.
\<close>

record jsmatch =
  match0 :: ustring
  match1 :: "ustring option"

fun exec_from :: "regex \<Rightarrow> nat \<Rightarrow> ustring \<Rightarrow> jsmatch option" where
  "exec_from r i s =
     (case m r (i, s, None) of
        (j, s', c) # _ \<Rightarrow> Some \<lparr>match0 = take (j - i) s, match1 = c\<rparr>
      | [] \<Rightarrow> (case s of [] \<Rightarrow> None | _ # t \<Rightarrow> exec_from r (Suc i) t))"

text \<open>\<open>url.match(r)\<close> and \<open>r.test(url)\<close>.\<close>

definition match :: "ustring \<Rightarrow> regex \<Rightarrow> jsmatch option" where
  "match s r = exec_from r 0 s"

definition test :: "regex \<Rightarrow> ustring \<Rightarrow> bool" where
  "test r s = (match s r \<noteq> None)"

section \<open>The URL functions of TikTokDownloader\<close>

text \<open>\<open>https?:\/\/\<close>\<close>

definition scheme :: regex where
  "scheme = Cat (Lit ''http'') (Cat (Opt (Lit ''s'')) (Lit ''://''))"

text \<open>\<open>(?:www\.)?tiktok\.com\/@[^/]+\/video\/\d+\<close>\<close>

definition canonical_tail :: regex where
  "canonical_tail =
     Cat (Opt (Lit ''www.''))
       (Cat (Lit ''tiktok.com/@'') (Cat (Plus NotSlash) (Cat (Lit ''/video/'') (Plus Digit))))"

text \<open>\<open>/(?:https?:\/\/)?(?:www\.)?tiktok\.com\/@[^/]+\/video\/\d+/\<close>\<close>

definition clean_pattern :: regex where
  "clean_pattern = Cat (Opt scheme) canonical_tail"

definition cleanTikTokUrl :: "ustring \<Rightarrow> ustring" where
  "cleanTikTokUrl url0 =
     (let url = trim url0 in
      if includes_str url (js ''vm.tiktok.com'') \<or> includes_str url (js ''vt.tiktok.com'') then url
      else (case match url clean_pattern of Some mt \<Rightarrow> match0 mt | None \<Rightarrow> url))"

definition valid_patterns :: "regex list" where
  "valid_patterns =
     [Cat Bol (Cat scheme canonical_tail),
      Cat Bol (Cat scheme (Cat (Lit ''vm.tiktok.com/'') (Plus AlphaNum))),
      Cat Bol (Cat scheme (Cat (Lit ''vt.tiktok.com/'') (Plus AlphaNum))),
      Cat Bol (Cat scheme (Cat (Lit ''m.tiktok.com/v/'') (Plus Digit)))]"

definition isValidTikTokUrl :: "ustring \<Rightarrow> bool" where
  "isValidTikTokUrl url = list_ex (\<lambda>pattern. test pattern url) valid_patterns"

definition id_patterns :: "regex list" where
  "id_patterns =
     [Cat (Lit ''/video/'') (Capture (Plus Digit)),
      Cat (Lit ''/v/'') (Capture (Plus Digit)),
      Cat (Lit ''video_id='') (Capture (Plus Digit))]"

text \<open>
  The \<open>for\<close> loop of \<open>extractVideoId\<close>: the first pattern that matches returns its
  group 1. Group 1 takes part in every match of these patterns, so \<open>match[1]\<close> is a string.
\<close>

fun first_match :: "regex list \<Rightarrow> ustring \<Rightarrow> ustring option" where
  "first_match [] url = None"
| "first_match (pattern # patterns) url =
     (case match url pattern of Some mt \<Rightarrow> match1 mt | None \<Rightarrow> first_match patterns url)"

definition extractVideoId :: "ustring \<Rightarrow> ustring option" where
  "extractVideoId url = first_match id_patterns url"

section \<open>JavaScript values, exceptions and effects\<close>

text \<open>
  The values that \<open>JSON.parse\<close> and the HTTP client hand to the code, and \<open>undefined\<close>
  for a property that is not there. A number is the real that the IEEE double denotes; the
  code only tests numbers for truthiness and passes them on.
\<close>

datatype jsvalue =
    JUndefined
  | JNull
  | JBool bool
  | JNum real
  | JStr ustring
  | JArr "jsvalue list"
  | JObj "(ustring \<times> jsvalue) list"

text \<open>What a \<open>throw\<close> carries: an instance of \<open>Error\<close> with its message, or any other value.\<close>

datatype jsthrown = ErrorObj ustring | NonError jsvalue

text \<open>\<open>ToBoolean\<close>, as \<open>!v\<close>, \<open>v || d\<close>, \<open>v && w\<close> and \<open>if (v)\<close> apply it.\<close>

fun truthy :: "jsvalue \<Rightarrow> bool" where
  "truthy JUndefined = False"
| "truthy JNull = False"
| "truthy (JBool b) = b"
| "truthy (JNum x) = (x \<noteq> 0)"
| "truthy (JStr s) = (s \<noteq> [])"
| "truthy (JArr vs) = True"
| "truthy (JObj kvs) = True"

text \<open>\<open>v || d\<close>\<close>

definition or_else :: "jsvalue \<Rightarrow> jsvalue \<Rightarrow> jsvalue" where
  "or_else v d = (if truthy v then v else d)"

text \<open>
  \<open>v.k\<close> for the property names the source reads, none of which is a property of a
  primitive, of an array or of \<open>Object.prototype\<close>: on \<open>undefined\<close> and \<open>null\<close> a
  \<open>TypeError\<close> (with the message of V8), on an object its value or \<open>undefined\<close>, on
  anything else \<open>undefined\<close>.
\<close>

definition type_error :: "jsvalue \<Rightarrow> string \<Rightarrow> jsthrown" where
  "type_error v k =
     ErrorObj (js ''Cannot read properties of '' @
               (if v = JNull then js ''null'' else js ''undefined'') @
               js '' (reading '' @ [39] @ js k @ [39] @ js '')'')"

fun getprop :: "jsvalue \<Rightarrow> string \<Rightarrow> jsthrown + jsvalue" where
  "getprop JUndefined k = Inl (type_error JUndefined k)"
| "getprop JNull k = Inl (type_error JNull k)"
| "getprop (JObj kvs) k = Inr (case map_of kvs (js k) of Some v \<Rightarrow> v | None \<Rightarrow> JUndefined)"
| "getprop v k = Inr JUndefined"

text \<open>Sequencing of steps that may throw: the first exception ends the sequence.\<close>

definition and_then :: "jsthrown + 'a \<Rightarrow> ('a \<Rightarrow> jsthrown + 'b) \<Rightarrow> jsthrown + 'b" where
  "and_then r f = (case r of Inl e \<Rightarrow> Inl e | Inr x \<Rightarrow> f x)"

text \<open>An HTTP GET as \<open>axios.get(url, {headers, timeout})\<close> issues it.\<close>

record request =
  req_url :: ustring
  req_headers :: "(string \<times> ustring) list"
  req_timeout :: real

text \<open>
  What the code calls outside itself, as parameters:
  \<^item> \<open>axios_get\<close>: the \<open>data\<close> of the response to a request, or what the rejected promise
    throws;
  \<^item> \<open>script_html\<close>: \<open>cheerio.load(data)\<close> followed by
    \<open>$('script[id="__UNIVERSAL_DATA_FOR_REHYDRATION__"]').html()\<close>, a string or \<open>null\<close>;
  \<^item> \<open>JSON_parse\<close>: \<open>JSON.parse\<close>;
  \<^item> \<open>ToString\<close>: the conversion of a template literal on a value that is not a string;
  \<^item> \<open>randomUserAgent\<close>: \<open>new UserAgent().toString()\<close> when the optional module
    \<open>user-agents\<close> is installed.
  \<open>console.error\<close> only writes to the console and is left out.
\<close>

record env =
  axios_get :: "request \<Rightarrow> jsthrown + jsvalue"
  script_html :: "jsvalue \<Rightarrow> jsthrown + ustring option"
  JSON_parse :: "ustring \<Rightarrow> jsthrown + jsvalue"
  ToString :: "jsvalue \<Rightarrow> ustring"
  randomUserAgent :: "ustring option"

text \<open>
  A computation that may issue requests and may throw: the requests issued, in order, and
  the value returned or the value thrown.
\<close>

type_synonym 'a io = "request list \<times> (jsthrown + 'a)"

definition io_return :: "'a \<Rightarrow> 'a io" where
  "io_return x = ([], Inr x)"

definition io_throw :: "jsthrown \<Rightarrow> 'a io" where
  "io_throw e = ([], Inl e)"

definition io_lift :: "jsthrown + 'a \<Rightarrow> 'a io" where
  "io_lift r = ([], r)"

definition io_bind :: "'a io \<Rightarrow> ('a \<Rightarrow> 'b io) \<Rightarrow> 'b io" where
  "io_bind p f =
     (case p of
        (t, Inl e) \<Rightarrow> (t, Inl e)
      | (t, Inr x) \<Rightarrow> (case f x of (t', r) \<Rightarrow> (t @ t', r)))"

text \<open>\<open>try { p } catch (error) { h error }\<close>\<close>

definition io_try :: "'a io \<Rightarrow> (jsthrown \<Rightarrow> 'a io) \<Rightarrow> 'a io" where
  "io_try p h =
     (case p of
        (t, Inl e) \<Rightarrow> (case h e of (t', r) \<Rightarrow> (t @ t', r))
      | (t, Inr x) \<Rightarrow> (t, Inr x))"

definition http_get :: "env \<Rightarrow> request \<Rightarrow> jsvalue io" where
  "http_get E rq = ([rq], axios_get E rq)"

section \<open>The data model of types.ts\<close>

record MusicInfo =
  music_id :: jsvalue
  music_title :: jsvalue
  author :: jsvalue
  music_duration :: jsvalue
  url :: jsvalue

record TikTokVideoInfo =
  video_id :: jsvalue
  title :: jsvalue
  description :: jsvalue
  duration :: jsvalue
  playCount :: jsvalue
  likeCount :: jsvalue
  commentCount :: jsvalue
  shareCount :: jsvalue
  createTime :: jsvalue
  videoUrl :: jsvalue
  coverUrl :: jsvalue
  dynamicCoverUrl :: jsvalue
  music :: MusicInfo

text \<open>
  \<open>video\<close> and \<open>audio\<close> are keys of every \<open>downloadUrls\<close> object the code builds;
  \<open>watermarkFree\<close> is a key only when it is assigned.
\<close>

record DownloadUrls =
  video :: jsvalue
  audio :: jsvalue
  watermarkFree :: "jsvalue option"

record ResultData =
  videoInfo :: TikTokVideoInfo
  downloadUrls :: DownloadUrls

record TikTokDownloadResult =
  success :: bool
  message :: ustring
  data :: "ResultData option"
  error :: "ustring option"

datatype quality = high | medium | low

record TikTokDownloaderOptions =
  opt_includeWatermark :: "bool option"
  opt_quality :: "quality option"
  opt_timeout :: "real option"
  opt_userAgent :: "ustring option"

text \<open>The private fields of a \<open>TikTokDownloader\<close>; \<open>userAgent\<close> is \<open>options.userAgent\<close>.\<close>

record TikTokDownloader =
  includeWatermark :: bool
  quality :: quality
  timeout :: real
  userAgent :: ustring

definition default_userAgent :: ustring where
  "default_userAgent = js (''Mozilla/5.0 (Windows NT 10.0; Win64; x64) AppleWebKit/537.36 '' @
     ''(KHTML, like Gecko) Chrome/91.0.4472.124 Safari/537.36'')"

text \<open>The constructor: \<open>options.f ?? d\<close> for each field.\<close>

definition new_TikTokDownloader :: "env \<Rightarrow> TikTokDownloaderOptions \<Rightarrow> TikTokDownloader" where
  "new_TikTokDownloader E options =
     \<lparr>includeWatermark = (case opt_includeWatermark options of Some b \<Rightarrow> b | None \<Rightarrow> False),
      quality = (case opt_quality options of Some q \<Rightarrow> q | None \<Rightarrow> high),
      timeout = (case opt_timeout options of Some t \<Rightarrow> t | None \<Rightarrow> 30000),
      userAgent = (case opt_userAgent options of Some a \<Rightarrow> a
                   | None \<Rightarrow> (case randomUserAgent E of Some a \<Rightarrow> a | None \<Rightarrow> default_userAgent))\<rparr>"

section \<open>The effectful methods of TikTokDownloader\<close>

definition page_headers :: "TikTokDownloader \<Rightarrow> (string \<times> ustring) list" where
  "page_headers self =
     [(''User-Agent'', userAgent self),
      (''Accept'', js ''text/html,application/xhtml+xml,application/xml;q=0.9,image/webp,*/*;q=0.8''),
      (''Accept-Language'', js ''en-US,en;q=0.5''),
      (''Accept-Encoding'', js ''gzip, deflate''),
      (''DNT'', js ''1''),
      (''Connection'', js ''keep-alive''),
      (''Upgrade-Insecure-Requests'', js ''1'')]"

text \<open>The request of \<open>fetchVideoData\<close>: \<open>axios.get(url, {headers, timeout})\<close>.\<close>

definition page_request :: "TikTokDownloader \<Rightarrow> ustring \<Rightarrow> request" where
  "page_request self url_v =
     \<lparr>req_url = url_v, req_headers = page_headers self, req_timeout = timeout self\<rparr>"

text \<open>
  The object literal of \<open>fetchVideoData\<close> (source lines 202 to 227): the projection of
  \<open>itemStruct\<close> into a \<open>TikTokVideoInfo\<close>, each property read in the order of the source.
\<close>

definition videoInfo_of_item :: "jsvalue \<Rightarrow> jsthrown + TikTokVideoInfo" where
  "videoInfo_of_item item =
     and_then (getprop item ''stats'') (\<lambda>stats.
     and_then (getprop item ''music'') (\<lambda>music_v.
     and_then (getprop item ''video'') (\<lambda>video_v.
     and_then (getprop item ''id'') (\<lambda>id_v.
     and_then (getprop item ''desc'') (\<lambda>desc.
     and_then (getprop video_v ''duration'') (\<lambda>duration_v.
     and_then (getprop stats ''playCount'') (\<lambda>playCount_v.
     and_then (getprop stats ''diggCount'') (\<lambda>diggCount_v.
     and_then (getprop stats ''commentCount'') (\<lambda>commentCount_v.
     and_then (getprop stats ''shareCount'') (\<lambda>shareCount_v.
     and_then (getprop item ''createTime'') (\<lambda>createTime_v.
     and_then (getprop video_v ''playAddr'') (\<lambda>playAddr.
     and_then (getprop video_v ''cover'') (\<lambda>cover.
     and_then (getprop video_v ''dynamicCover'') (\<lambda>dynamicCover.
     and_then (getprop music_v ''id'') (\<lambda>m_id.
     and_then (getprop music_v ''title'') (\<lambda>m_title.
     and_then (getprop music_v ''authorName'') (\<lambda>m_authorName.
     and_then (getprop music_v ''duration'') (\<lambda>m_duration.
     and_then (getprop music_v ''playUrl'') (\<lambda>m_playUrl.
     Inr \<lparr>video_id = id_v,
          title = or_else desc (JStr []),
          description = or_else desc (JStr []),
          duration = duration_v,
          playCount = or_else playCount_v (JNum 0),
          likeCount = or_else diggCount_v (JNum 0),
          commentCount = or_else commentCount_v (JNum 0),
          shareCount = or_else shareCount_v (JNum 0),
          createTime = createTime_v,
          videoUrl = playAddr,
          coverUrl = cover,
          dynamicCoverUrl = dynamicCover,
          music = \<lparr>music_id = m_id, music_title = m_title, author = m_authorName,
                   music_duration = m_duration, url = m_playUrl\<rparr>\<rparr>)))))))))))))))))))"

text \<open>The \<open>try\<close> block of \<open>fetchVideoData\<close>.\<close>

definition fetchVideoData_try :: "env \<Rightarrow> TikTokDownloader \<Rightarrow> ustring \<Rightarrow> TikTokVideoInfo option io" where
  "fetchVideoData_try E self url_v =
     io_bind (http_get E (page_request self url_v)) (\<lambda>response_data.
     io_bind (io_lift (script_html E response_data)) (\<lambda>scriptTag.
     case scriptTag of
       None \<Rightarrow> io_throw (ErrorObj (js ''Could not find video data in page''))
     | Some script \<Rightarrow>
         if script = [] then io_throw (ErrorObj (js ''Could not find video data in page''))
         else
     io_bind (io_lift (JSON_parse E script)) (\<lambda>jsonData.
     io_bind (io_lift (getprop jsonData ''__DEFAULT_SCOPE__'')) (\<lambda>scope.
     io_bind (io_lift (getprop scope ''webapp.video-detail'')) (\<lambda>videoData.
     if \<not> truthy videoData then io_throw (ErrorObj (js ''Video data structure is invalid''))
     else
     io_bind (io_lift (getprop videoData ''itemInfo'')) (\<lambda>itemInfo.
     if \<not> truthy itemInfo then io_throw (ErrorObj (js ''Video data structure is invalid''))
     else
     io_bind (io_lift (getprop itemInfo ''itemStruct'')) (\<lambda>item.
     io_bind (io_lift (videoInfo_of_item item)) (\<lambda>vi.
     io_return (Some vi)))))))))"

text \<open>\<open>fetchVideoData\<close>: whatever the \<open>try\<close> block throws is logged and becomes \<open>null\<close>.\<close>

definition fetchVideoData :: "env \<Rightarrow> TikTokDownloader \<Rightarrow> ustring \<Rightarrow> TikTokVideoInfo option io" where
  "fetchVideoData E self url_v = io_try (fetchVideoData_try E self url_v) (\<lambda>error. io_return None)"

text \<open>The template literal \<open>`${v}`\<close>.\<close>

definition template :: "env \<Rightarrow> jsvalue \<Rightarrow> ustring" where
  "template E v = (case v of JStr s \<Rightarrow> s | _ \<Rightarrow> ToString E v)"

definition apiUrl :: "env \<Rightarrow> jsvalue \<Rightarrow> ustring" where
  "apiUrl E videoId =
     js ''https://api.tiklydown.eu.org/api/download?url=https://www.tiktok.com/@user/video/'' @
     template E videoId"

text \<open>The request of \<open>getWatermarkFreeUrl\<close>.\<close>

definition api_request :: "env \<Rightarrow> TikTokDownloader \<Rightarrow> jsvalue \<Rightarrow> request" where
  "api_request E self videoId =
     \<lparr>req_url = apiUrl E videoId, req_headers = [(''User-Agent'', userAgent self)],
      req_timeout = timeout self\<rparr>"

text \<open>
  \<open>getWatermarkFreeUrl\<close>: the value of
  \<open>response.data && response.data.video && response.data.video.noWatermark\<close> when it is
  truthy, \<open>null\<close> otherwise and when anything is thrown.
\<close>

definition getWatermarkFreeUrl_try :: "env \<Rightarrow> TikTokDownloader \<Rightarrow> jsvalue \<Rightarrow> jsvalue io" where
  "getWatermarkFreeUrl_try E self videoId =
     io_bind (http_get E (api_request E self videoId)) (\<lambda>response_data.
     if \<not> truthy response_data then io_return JNull
     else
     io_bind (io_lift (getprop response_data ''video'')) (\<lambda>video_v.
     if \<not> truthy video_v then io_return JNull
     else
     io_bind (io_lift (getprop video_v ''noWatermark'')) (\<lambda>noWatermark.
     if truthy noWatermark then io_return noWatermark else io_return JNull)))"

definition getWatermarkFreeUrl :: "env \<Rightarrow> TikTokDownloader \<Rightarrow> jsvalue \<Rightarrow> jsvalue io" where
  "getWatermarkFreeUrl E self videoId =
     io_try (getWatermarkFreeUrl_try E self videoId) (\<lambda>error. io_return JNull)"

definition extractDownloadUrls :: "env \<Rightarrow> TikTokDownloader \<Rightarrow> TikTokVideoInfo \<Rightarrow> DownloadUrls io" where
  "extractDownloadUrls E self vi =
     io_try
       (let urls = \<lparr>video = videoUrl vi, audio = url (music vi), watermarkFree = None\<rparr> in
        if \<not> includeWatermark self then
          io_bind (getWatermarkFreeUrl E self (video_id vi)) (\<lambda>watermarkFreeUrl.
          if truthy watermarkFreeUrl
          then io_return (urls\<lparr>watermarkFree := Some watermarkFreeUrl\<rparr>)
          else io_return urls)
        else io_return urls)
       (\<lambda>error. io_return \<lparr>video = videoUrl vi, audio = url (music vi), watermarkFree = None\<rparr>)"

text \<open>The \<open>try\<close> block of \<open>downloadVideo\<close>.\<close>

definition downloadVideo_try :: "env \<Rightarrow> TikTokDownloader \<Rightarrow> ustring \<Rightarrow> TikTokDownloadResult io" where
  "downloadVideo_try E self url_v =
     (let cleanUrl = cleanTikTokUrl url_v in
      if \<not> isValidTikTokUrl cleanUrl then
        io_return \<lparr>success = False, message = js ''Invalid TikTok URL provided'', data = None,
                    error = Some (js ''URL format is not recognized as a valid TikTok video URL'')\<rparr>
      else
        let videoId = extractVideoId cleanUrl in
        if videoId = None \<or> videoId = Some [] then
          io_return \<lparr>success = False, message = js ''Could not extract video ID from URL'',
                      data = None, error = Some (js ''Video ID extraction failed'')\<rparr>
        else
          io_bind (fetchVideoData E self cleanUrl) (\<lambda>videoData.
          case videoData of
            None \<Rightarrow>
              io_return \<lparr>success = False, message = js ''Failed to fetch video data'', data = None,
                          error = Some (js ''Could not retrieve video information from TikTok'')\<rparr>
          | Some vi \<Rightarrow>
              io_bind (extractDownloadUrls E self vi) (\<lambda>urls.
              io_return \<lparr>success = True, message = js ''Video information retrieved successfully'',
                          data = Some \<lparr>videoInfo = vi, downloadUrls = urls\<rparr>, error = None\<rparr>)))"

text \<open>The \<open>catch\<close> clause of \<open>downloadVideo\<close>.\<close>

definition downloadVideo_catch :: "jsthrown \<Rightarrow> TikTokDownloadResult io" where
  "downloadVideo_catch err =
     io_return \<lparr>success = False, message = js ''An error occurred while processing the video'',
                 data = None,
                 error = Some (case err of ErrorObj msg \<Rightarrow> msg | NonError v \<Rightarrow> js ''Unknown error'')\<rparr>"

definition downloadVideo :: "env \<Rightarrow> TikTokDownloader \<Rightarrow> ustring \<Rightarrow> TikTokDownloadResult io" where
  "downloadVideo E self url_v = io_try (downloadVideo_try E self url_v) downloadVideo_catch"

section \<open>What the regular expressions and the URL functions are to compute\<close>

text \<open>
  The words a regular expression matches when the match starts at index \<open>i\<close> of the
  input; the index matters to \<open>^\<close> only.
\<close>

fun lang :: "regex \<Rightarrow> nat \<Rightarrow> ustring set" where
  "lang (Lit cs) i = {js cs}"
| "lang (Opt r) i = insert [] (lang r i)"
| "lang (Plus k) i = {w. w \<noteq> [] \<and> (\<forall>x\<in>set w. cls k x)}"
| "lang (Cat r1 r2) i = {u @ v | u v. u \<in> lang r1 i \<and> v \<in> lang r2 (i + length u)}"
| "lang (Capture r) i = lang r i"
| "lang Bol i = (if i = 0 then {[]} else {})"

definition is_digit :: "nat \<Rightarrow> bool" where
  "is_digit c \<longleftrightarrow> 48 \<le> c \<and> c \<le> 57"

definition digits :: "ustring \<Rightarrow> bool" where
  "digits ds \<longleftrightarrow> ds \<noteq> [] \<and> (\<forall>d\<in>set ds. is_digit d)"

definition alnums :: "ustring \<Rightarrow> bool" where
  "alnums w \<longleftrightarrow> w \<noteq> [] \<and>
     (\<forall>c\<in>set w. (65 \<le> c \<and> c \<le> 90) \<or> (97 \<le> c \<and> c \<le> 122) \<or> is_digit c)"

definition handle :: "ustring \<Rightarrow> bool" where
  "handle h \<longleftrightarrow> h \<noteq> [] \<and> 47 \<notin> set h"

definition canonical_body :: "ustring \<Rightarrow> bool" where
  "canonical_body b \<longleftrightarrow>
     (\<exists>www h ds. (www = [] \<or> www = js ''www.'') \<and> handle h \<and> digits ds \<and>
        b = www @ js ''tiktok.com/@'' @ h @ js ''/video/'' @ ds)"

definition vm_body :: "ustring \<Rightarrow> bool" where
  "vm_body b \<longleftrightarrow> (\<exists>w. alnums w \<and> b = js ''vm.tiktok.com/'' @ w)"

definition vt_body :: "ustring \<Rightarrow> bool" where
  "vt_body b \<longleftrightarrow> (\<exists>w. alnums w \<and> b = js ''vt.tiktok.com/'' @ w)"

definition mobile_body :: "ustring \<Rightarrow> bool" where
  "mobile_body b \<longleftrightarrow> (\<exists>ds. digits ds \<and> b = js ''m.tiktok.com/v/'' @ ds)"

definition required_scheme :: "ustring set" where
  "required_scheme = {js ''http://'', js ''https://''}"

definition optional_scheme :: "ustring set" where
  "optional_scheme = insert [] required_scheme"

definition starts_with :: "ustring set \<Rightarrow> (ustring \<Rightarrow> bool) \<Rightarrow> ustring \<Rightarrow> bool" where
  "starts_with schemes body u \<longleftrightarrow> (\<exists>sc b rest. sc \<in> schemes \<and> u = sc @ b @ rest \<and> body b)"

definition url_shape :: "ustring set \<Rightarrow> ustring \<Rightarrow> bool" where
  "url_shape schemes u \<longleftrightarrow>
     starts_with schemes canonical_body u \<or> starts_with schemes vm_body u \<or>
     starts_with schemes vt_body u \<or> starts_with schemes mobile_body u"

text \<open>One of the three patterns of \<open>extractVideoId\<close>: \<open>key(\\d+)\<close>.\<close>

definition idp :: "string \<Rightarrow> regex" where
  "idp key = Cat (Lit key) (Capture (Plus Digit))"

text \<open>
  \<open>has_id key u\<close>: the pattern \<open>key(\\d+)\<close> matches somewhere in \<open>u\<close>.
  \<open>captures key u ds\<close>: \<open>ds\<close> is the whole run of digits after the leftmost \<open>key\<close>
  of \<open>u\<close> that a digit follows.
\<close>

definition has_id :: "string \<Rightarrow> ustring \<Rightarrow> bool" where
  "has_id key u \<longleftrightarrow> (\<exists>p d q. u = p @ js key @ d # q \<and> is_digit d)"

definition captures :: "string \<Rightarrow> ustring \<Rightarrow> ustring \<Rightarrow> bool" where
  "captures key u ds \<longleftrightarrow>
     (\<exists>p q. u = p @ js key @ ds @ q \<and> digits ds \<and> (q = [] \<or> \<not> is_digit (hd q)) \<and>
        (\<forall>p' d q'. u = p' @ js key @ d # q' \<and> is_digit d \<longrightarrow> length p \<le> length p'))"

text \<open>The two shapes of result envelope that \<open>downloadVideo\<close> builds.\<close>

definition failure :: "string \<Rightarrow> ustring \<Rightarrow> TikTokDownloadResult" where
  "failure msg detail = \<lparr>success = False, message = js msg, data = None, error = Some detail\<rparr>"

definition succeeded :: "TikTokVideoInfo \<Rightarrow> DownloadUrls \<Rightarrow> TikTokDownloadResult" where
  "succeeded vi urls =
     \<lparr>success = True, message = js ''Video information retrieved successfully'',
      data = Some \<lparr>videoInfo = vi, downloadUrls = urls\<rparr>, error = None\<rparr>"





text \<open>
  The mirror API fails: the request throws, or the response has no \<open>video.noWatermark\<close>
  field (a response that is not JSON arrives as a string, which has none).
\<close>

definition noWatermark_field :: "jsvalue \<Rightarrow> jsvalue option" where
  "noWatermark_field d =
     (case d of
        JObj kvs \<Rightarrow>
          (case map_of kvs (js ''video'') of
             Some (JObj vkvs) \<Rightarrow> map_of vkvs (js ''noWatermark'')
           | _ \<Rightarrow> None)
      | _ \<Rightarrow> None)"

definition mirror_fails :: "env \<Rightarrow> request \<Rightarrow> bool" where
  "mirror_fails E rq \<longleftrightarrow>
     (case axios_get E rq of Inl e \<Rightarrow> True | Inr d \<Rightarrow> noWatermark_field d = None)"

text \<open>
  \<open>contains s t\<close>: \<open>t\<close> is a substring of \<open>s\<close>. \<open>trimmed u t\<close>: \<open>t\<close> is \<open>u\<close> without
  the white space around it. \<open>canonical_url w\<close>: \<open>w\<close> is a canonical URL, with or without
  a scheme. \<open>short_link u\<close>: \<open>u\<close> starts with a scheme and one of the two short-link
  bodies.
\<close>

definition contains :: "ustring \<Rightarrow> ustring \<Rightarrow> bool" where
  "contains s t \<longleftrightarrow> (\<exists>p q. s = p @ t @ q)"

definition trimmed :: "ustring \<Rightarrow> ustring \<Rightarrow> bool" where
  "trimmed u t \<longleftrightarrow>
     (\<exists>a b. u = a @ t @ b \<and> (\<forall>c\<in>set a. isWhiteSpace c) \<and> (\<forall>c\<in>set b. isWhiteSpace c) \<and>
        (t = [] \<or> (\<not> isWhiteSpace (hd t) \<and> \<not> isWhiteSpace (last t))))"

definition canonical_url :: "ustring \<Rightarrow> bool" where
  "canonical_url w \<longleftrightarrow> (\<exists>sc b. sc \<in> optional_scheme \<and> canonical_body b \<and> w = sc @ b)"

definition short_link :: "ustring \<Rightarrow> bool" where
  "short_link u \<longleftrightarrow>
     starts_with required_scheme vm_body u \<or> starts_with required_scheme vt_body u"

text \<open>
  \<open>first_canonical t w\<close>: \<open>w\<close> is the canonical URL that starts at the leftmost index of
  \<open>t\<close> where one starts, with all the digits that follow its video ID taken in: what
  \<open>match[0]\<close> is for the greedy pattern of \<open>cleanTikTokUrl\<close>.
\<close>

definition first_canonical :: "ustring \<Rightarrow> ustring \<Rightarrow> bool" where
  "first_canonical t w \<longleftrightarrow>
     (\<exists>p q. t = p @ w @ q \<and> canonical_url w \<and> (q = [] \<or> \<not> is_digit (hd q)) \<and>
        (\<forall>p' w' q'. t = p' @ w' @ q' \<and> canonical_url w' \<longrightarrow> length p \<le> length p'))"

text \<open>A regular expression that ends with a greedy \<open>\\d+\<close>.\<close>

fun ends_digits :: "regex \<Rightarrow> bool" where
  "ends_digits (Plus k) = (k = Digit)"
| "ends_digits (Cat r1 r2) = ends_digits r2"
| "ends_digits r = False"

text \<open>A computation that issues no request.\<close>

definition pure_io :: "'a io \<Rightarrow> bool" where
  "pure_io p \<longleftrightarrow> fst p = []"

section \<open>Environments and inputs for the examples\<close>

definition no_options :: TikTokDownloaderOptions where
  "no_options = \<lparr>opt_includeWatermark = None, opt_quality = None, opt_timeout = None,
                  opt_userAgent = None\<rparr>"

definition E_down :: env where
  "E_down = \<lparr>axios_get = (\<lambda>rq. Inl (ErrorObj (js ''Network Error''))),
              script_html = (\<lambda>d. Inr None),
              JSON_parse = (\<lambda>s. Inl (ErrorObj (js ''Unexpected end of JSON input''))),
              ToString = (\<lambda>v. js ''undefined''),
              randomUserAgent = None\<rparr>"

definition url_demo :: ustring where
  "url_demo = js ''https://www.tiktok.com/@demo/video/111222333''"

definition demo_stats :: "(ustring \<times> jsvalue) list" where
  "demo_stats = [(js ''diggCount'', JNum 42), (js ''playCount'', JNum 1000)]"

definition demo_fields :: "(ustring \<times> jsvalue) list" where
  "demo_fields =
     [(js ''id'', JStr (js ''111222333'')),
      (js ''desc'', JStr (js ''demo'')),
      (js ''createTime'', JNum 1700000000),
      (js ''stats'', JObj demo_stats),
      (js ''music'', JObj [(js ''id'', JStr (js ''m1'')), (js ''title'', JStr (js ''song'')),
                          (js ''authorName'', JStr (js ''dj'')), (js ''duration'', JNum 30),
                          (js ''playUrl'', JStr (js ''https://a.example/m.mp3''))]),
      (js ''video'', JObj [(js ''duration'', JNum 15),
                          (js ''playAddr'', JStr (js ''https://v.example/play.mp4'')),
                          (js ''cover'', JStr (js ''https://v.example/c.jpg''))])]"

definition demo_item :: jsvalue where
  "demo_item = JObj demo_fields"

definition demo_json :: jsvalue where
  "demo_json =
     JObj [(js ''__DEFAULT_SCOPE__'',
            JObj [(js ''webapp.video-detail'',
                   JObj [(js ''itemInfo'', JObj [(js ''itemStruct'', demo_item)])])])]"

definition vi_demo :: TikTokVideoInfo where
  "vi_demo =
     \<lparr>video_id = JStr (js ''111222333''), title = JStr (js ''demo''),
      description = JStr (js ''demo''), duration = JNum 15, playCount = JNum 1000,
      likeCount = JNum 42, commentCount = JNum 0, shareCount = JNum 0,
      createTime = JNum 1700000000, videoUrl = JStr (js ''https://v.example/play.mp4''),
      coverUrl = JStr (js ''https://v.example/c.jpg''), dynamicCoverUrl = JUndefined,
      music = \<lparr>music_id = JStr (js ''m1''), music_title = JStr (js ''song''),
               author = JStr (js ''dj''), music_duration = JNum 30,
               url = JStr (js ''https://a.example/m.mp3'')\<rparr>\<rparr>"

definition E_demo :: env where
  "E_demo = \<lparr>axios_get = (\<lambda>rq. if req_url rq = url_demo then Inr (JStr (js ''<html>''))
                              else Inl (ErrorObj (js ''Network Error''))),
              script_html = (\<lambda>d. Inr (Some (js ''{}''))),
              JSON_parse = (\<lambda>s. Inr demo_json),
              ToString = (\<lambda>v. js ''undefined''),
              randomUserAgent = None\<rparr>"

definition url_junk :: ustring where
  "url_junk = js ''hello''"

definition url_short :: ustring where
  "url_short = js ''https://vm.tiktok.com/ZMabc123/''"

definition url_padded :: ustring where
  "url_padded = js ''  https://www.tiktok.com/@user/video/1234567890  ''"

definition url_short_padded :: ustring where
  "url_short_padded = js '' https://vt.tiktok.com/ZSxyz789/  ''"

definition url_canonical :: ustring where
  "url_canonical = js ''https://www.tiktok.com/@user/video/1234567890''"

definition url_mobile :: ustring where
  "url_mobile = js ''https://m.tiktok.com/v/777.html?video_id=5''"

definition url_query :: ustring where
  "url_query = js ''https://x.example/watch?video_id=42abc''"

definition url_embedded :: ustring where
  "url_embedded = js ''see http://tiktok.com/@u/video/12?x=1''"

section \<open>The matcher computes the language\<close>

lemma length_js [simp]: "length (js cs) = length cs"
  by (simp add: js_def)

lemma set_plus_lens:
  "n \<in> set (plus_lens k s) \<longleftrightarrow> 0 < n \<and> n \<le> length s \<and> (\<forall>x\<in>set (take n s). cls k x)"
proof (induction s arbitrary: n)
  case Nil
  show ?case by auto
next
  case (Cons c s)
  show ?case
  proof (cases n)
    case 0
    then show ?thesis by auto
  next
    case (Suc n')
    show ?thesis
    proof (cases n')
      case 0
      with Suc show ?thesis by auto
    next
      case (Suc n'')
      with \<open>n = Suc n'\<close> show ?thesis using Cons.IH [of n'] by auto
    qed
  qed
qed

lemma m_sound:
  "(j, s', c') \<in> set (m r (i, s, c)) \<Longrightarrow> \<exists>w. w \<in> lang r i \<and> s = w @ s' \<and> j = i + length w"
proof (induction r arbitrary: i s c j s' c')
  case (Lit cs)
  then show ?case by (auto simp: prefix_def split: if_splits)
next
  case (Opt r)
  then show ?case by fastforce
next
  case (Plus k)
  then obtain n where n: "n \<in> set (plus_lens k s)" "j = i + n" "s' = drop n s" by auto
  then have "take n s \<in> lang (Plus k) i \<and> s = take n s @ s' \<and> j = i + length (take n s)"
    by (auto simp: set_plus_lens)
  then show ?case by blast
next
  case (Cat r1 r2)
  then obtain st where st: "st \<in> set (m r1 (i, s, c))" "(j, s', c') \<in> set (m r2 st)" by auto
  obtain j1 s1 c1 where [simp]: "st = (j1, s1, c1)" by (cases st)
  from st have st1: "(j1, s1, c1) \<in> set (m r1 (i, s, c))"
    and st2: "(j, s', c') \<in> set (m r2 (j1, s1, c1))" by simp_all
  from Cat.IH(1) [OF st1] obtain u where u: "u \<in> lang r1 i" "s = u @ s1" "j1 = i + length u"
    by blast
  from Cat.IH(2) [OF st2] obtain v where v: "v \<in> lang r2 j1" "s1 = v @ s'" "j = j1 + length v"
    by blast
  from u v have "u @ v \<in> lang (Cat r1 r2) i \<and> s = (u @ v) @ s' \<and> j = i + length (u @ v)" by auto
  then show ?case by blast
next
  case (Capture r)
  then show ?case by fastforce
next
  case Bol
  then show ?case by (auto split: if_splits)
qed

lemma m_complete:
  "w \<in> lang r i \<Longrightarrow> \<exists>c'. (i + length w, s', c') \<in> set (m r (i, w @ s', c))"
proof (induction r arbitrary: i w s' c)
  case (Lit cs)
  then show ?case by auto
next
  case (Opt r)
  then show ?case by fastforce
next
  case (Plus k)
  then have "length w \<in> set (plus_lens k (w @ s'))" by (auto simp: set_plus_lens)
  then show ?case by force
next
  case (Cat r1 r2)
  then obtain u v where uv: "w = u @ v" "u \<in> lang r1 i" "v \<in> lang r2 (i + length u)" by auto
  from Cat.IH(1) [OF uv(2), of "v @ s'" c] obtain c1
    where c1: "(i + length u, v @ s', c1) \<in> set (m r1 (i, u @ v @ s', c))" by blast
  from Cat.IH(2) [OF uv(3), of s' c1] obtain c2
    where c2: "(i + length u + length v, s', c2) \<in> set (m r2 (i + length u, v @ s', c1))" by blast
  from c1 c2 uv(1) show ?case by (auto simp: add.assoc intro!: exI [of _ c2] bexI [OF _ c1])
next
  case (Capture r)
  from Capture.IH [OF Capture.prems [simplified], of s' c] show ?case by force
next
  case Bol
  then show ?case by (auto split: if_splits)
qed

lemma m_empty_iff:
  "m r (i, s, c) = [] \<longleftrightarrow> \<not> (\<exists>w s'. s = w @ s' \<and> w \<in> lang r i)"
proof
  assume e: "m r (i, s, c) = []"
  show "\<not> (\<exists>w s'. s = w @ s' \<and> w \<in> lang r i)"
  proof
    assume "\<exists>w s'. s = w @ s' \<and> w \<in> lang r i"
    then obtain w s' where "s = w @ s'" "w \<in> lang r i" by blast
    with m_complete [of w r i s' c] e show False by auto
  qed
next
  assume n: "\<not> (\<exists>w s'. s = w @ s' \<and> w \<in> lang r i)"
  show "m r (i, s, c) = []"
  proof (cases "m r (i, s, c)")
    case Nil
    then show ?thesis .
  next
    case (Cons st rest)
    obtain j s' c' where "st = (j, s', c')" by (cases st)
    with Cons have "(j, s', c') \<in> set (m r (i, s, c))" by simp
    from m_sound [OF this] n show ?thesis by blast
  qed
qed

declare exec_from.simps [simp del]

lemma exec_from_None:
  "exec_from r i s = None \<longleftrightarrow> (\<forall>p q. s = p @ q \<longrightarrow> m r (i + length p, q, None) = [])"
proof (induction s arbitrary: i)
  case Nil
  show ?case by (subst exec_from.simps) (auto split: list.splits)
next
  case (Cons x s)
  have "(\<forall>p q. x # s = p @ q \<longrightarrow> m r (i + length p, q, None) = []) \<longleftrightarrow>
        m r (i, x # s, None) = [] \<and> (\<forall>p q. s = p @ q \<longrightarrow> m r (Suc i + length p, q, None) = [])"
    (is "?L \<longleftrightarrow> ?R")
  proof
    assume l: ?L
    have "m r (i, x # s, None) = []" using l [rule_format, of "[]" "x # s"] by simp
    moreover have "m r (Suc i + length p, q, None) = []" if "s = p @ q" for p q
      using l [rule_format, of "x # p" q] that by simp
    ultimately show ?R by blast
  next
    assume r: ?R
    show ?L
    proof (intro allI impI)
      fix p q assume pq: "x # s = p @ q"
      show "m r (i + length p, q, None) = []"
      proof (cases p)
        case Nil
        with pq r show ?thesis by simp
      next
        case (Cons y p')
        with pq have "s = p' @ q" by simp
        with r Cons show ?thesis by simp
      qed
    qed
  qed
  then show ?case
    by (subst exec_from.simps) (auto simp: Cons.IH split: list.splits)
qed

lemma exec_from_Some:
  "exec_from r i s = Some mt \<Longrightarrow>
   \<exists>p q. s = p @ match0 mt @ q \<and> match0 mt \<in> lang r (i + length p) \<and>
     (\<forall>p' q'. s = p' @ q' \<and> length p' < length p \<longrightarrow> m r (i + length p', q', None) = [])"
proof (induction s arbitrary: i)
  case Nil
  then obtain j s' c rest where mm: "m r (i, [], None) = (j, s', c) # rest"
    by (subst (asm) exec_from.simps) (auto split: list.splits)
  with Nil have mt: "match0 mt = take (j - i) []"
    by (subst (asm) exec_from.simps) auto
  from mm have "(j, s', c) \<in> set (m r (i, [], None))" by simp
  from m_sound [OF this] mt show ?case by auto
next
  case (Cons x s)
  show ?case
  proof (cases "m r (i, x # s, None)")
    case Nil
    with Cons.prems have "exec_from r (Suc i) s = Some mt"
      by (subst (asm) exec_from.simps) simp
    from Cons.IH [OF this] obtain p q where pq: "s = p @ match0 mt @ q"
      "match0 mt \<in> lang r (Suc i + length p)"
      "\<forall>p' q'. s = p' @ q' \<and> length p' < length p \<longrightarrow> m r (Suc i + length p', q', None) = []"
      by blast
    have "m r (i + length p', q', None) = []"
      if "x # s = p' @ q'" "length p' < length (x # p)" for p' q'
    proof (cases p')
      case Nil
      with that \<open>m r (i, x # s, None) = []\<close> show ?thesis by simp
    next
      case (Cons y p'')
      with that have "s = p'' @ q'" "length p'' < length p" by auto
      with pq(3) Cons show ?thesis by simp
    qed
    with pq(1,2) have "x # s = (x # p) @ match0 mt @ q \<and> match0 mt \<in> lang r (i + length (x # p)) \<and>
      (\<forall>p' q'. x # s = p' @ q' \<and> length p' < length (x # p) \<longrightarrow> m r (i + length p', q', None) = [])"
      by simp
    then show ?thesis by blast
  next
    case (Cons st rest)
    obtain j s' c where st: "st = (j, s', c)" by (cases st)
    with Cons Cons.prems have mt: "match0 mt = take (j - i) (x # s)"
      by (subst (asm) exec_from.simps) auto
    from Cons st have "(j, s', c) \<in> set (m r (i, x # s, None))" by simp
    from m_sound [OF this] obtain w where w: "w \<in> lang r i" "x # s = w @ s'" "j = i + length w"
      by blast
    with mt have "match0 mt = w" by simp
    with w have "x # s = [] @ match0 mt @ s' \<and> match0 mt \<in> lang r (i + length ([]::ustring)) \<and>
      (\<forall>p' q'. x # s = p' @ q' \<and> length p' < length ([]::ustring) \<longrightarrow> m r (i + length p', q', None) = [])"
      by simp
    then show ?thesis by blast
  qed
qed

lemma js_append: "js (a @ b) = js a @ js b"
  by (simp add: js_def)

lemma lang_scheme: "lang scheme i = required_scheme"
  by (auto simp: scheme_def required_scheme_def js_def)

lemma lang_plus_digit: "w \<in> lang (Plus Digit) i \<longleftrightarrow> digits w"
  by (auto simp: digits_def is_digit_def)

lemma lang_plus_alnum: "w \<in> lang (Plus AlphaNum) i \<longleftrightarrow> alnums w"
  by (auto simp: alnums_def is_digit_def)

lemma lang_plus_notslash: "w \<in> lang (Plus NotSlash) i \<longleftrightarrow> handle w"
  by (auto simp: handle_def)

lemma lang_Cat: "w \<in> lang (Cat r1 r2) i \<longleftrightarrow> (\<exists>u v. w = u @ v \<and> u \<in> lang r1 i \<and> v \<in> lang r2 (i + length u))"
  by auto

lemma lang_Lit: "w \<in> lang (Lit cs) i \<longleftrightarrow> w = js cs"
  by simp

lemma lang_Opt: "w \<in> lang (Opt r) i \<longleftrightarrow> w = [] \<or> w \<in> lang r i"
  by auto

lemma lang_canonical_tail: "w \<in> lang canonical_tail i \<longleftrightarrow> canonical_body w"
  unfolding canonical_tail_def canonical_body_def lang_Cat lang_Opt lang_Lit
    lang_plus_digit lang_plus_notslash
  by (rule iffI; (elim exE conjE disjE; simp; blast)?)

lemma test_iff: "test r s \<longleftrightarrow> (\<exists>p w q. s = p @ w @ q \<and> w \<in> lang r (length p))"
  unfolding test_def match_def
  using exec_from_None [of r 0 s] by (simp add: m_empty_iff) blast

lemma lang_Bol_Cat: "lang (Cat Bol r) i = (if i = 0 then lang r 0 else {})"
  by auto

lemma test_anchored: "test (Cat Bol r) s \<longleftrightarrow> (\<exists>w q. s = w @ q \<and> w \<in> lang r 0)"
  unfolding test_iff lang_Bol_Cat by (auto split: if_splits)

lemma test_scheme_then:
  "test (Cat Bol (Cat scheme r)) s \<longleftrightarrow>
   (\<exists>sc b q. sc \<in> required_scheme \<and> s = sc @ b @ q \<and> b \<in> lang r (length sc))"
proof
  assume "test (Cat Bol (Cat scheme r)) s"
  then obtain w q u v where "s = w @ q" "w = u @ v" "u \<in> required_scheme" "v \<in> lang r (length u)"
    unfolding test_anchored lang_Cat lang_scheme by auto
  then have "u \<in> required_scheme \<and> s = u @ v @ q \<and> v \<in> lang r (length u)" by simp
  then show "\<exists>sc b q. sc \<in> required_scheme \<and> s = sc @ b @ q \<and> b \<in> lang r (length sc)" by blast
next
  assume "\<exists>sc b q. sc \<in> required_scheme \<and> s = sc @ b @ q \<and> b \<in> lang r (length sc)"
  then obtain sc b q where "sc \<in> required_scheme" "s = sc @ b @ q" "b \<in> lang r (length sc)" by blast
  then have "s = (sc @ b) @ q \<and> sc @ b \<in> lang (Cat scheme r) 0"
    unfolding lang_Cat lang_scheme by auto
  then show "test (Cat Bol (Cat scheme r)) s" unfolding test_anchored by blast
qed

lemma lang_vm: "w \<in> lang (Cat (Lit ''vm.tiktok.com/'') (Plus AlphaNum)) i \<longleftrightarrow> vm_body w"
  unfolding lang_Cat lang_Lit lang_plus_alnum vm_body_def by blast

lemma lang_vt: "w \<in> lang (Cat (Lit ''vt.tiktok.com/'') (Plus AlphaNum)) i \<longleftrightarrow> vt_body w"
  unfolding lang_Cat lang_Lit lang_plus_alnum vt_body_def by blast

lemma lang_mobile: "w \<in> lang (Cat (Lit ''m.tiktok.com/v/'') (Plus Digit)) i \<longleftrightarrow> mobile_body w"
  unfolding lang_Cat lang_Lit lang_plus_digit mobile_body_def by blast

section \<open>The patterns of extractVideoId\<close>

lemma plus_lens_Nil_iff: "plus_lens k s = [] \<longleftrightarrow> (s = [] \<or> \<not> cls k (hd s))"
  by (cases s) auto

lemma hd_plus_lens: "plus_lens k s \<noteq> [] \<Longrightarrow> hd (plus_lens k s) = length (takeWhile (cls k) s)"
proof (induction s)
  case Nil
  then show ?case by simp
next
  case (Cons c s)
  then have c: "cls k c" by (auto split: if_splits)
  show ?case
  proof (cases "plus_lens k s = []")
    case True
    then have "takeWhile (cls k) s = []" by (cases s) (auto simp: plus_lens_Nil_iff)
    with True c show ?thesis by simp
  next
    case False
    with Cons.IH c show ?thesis by (simp add: hd_append hd_map)
  qed
qed

lemma m_idp:
  "m (idp key) (i, s, None) =
     (if prefix (js key) s
      then map (\<lambda>n. (i + length key + n, drop n (drop (length key) s),
                     Some (take n (drop (length key) s))))
             (plus_lens Digit (drop (length key) s))
      else [])"
  by (simp add: idp_def comp_def)

lemma m_idp_Nil_iff:
  "m (idp key) (i, s, None) = [] \<longleftrightarrow> \<not> (\<exists>d q. s = js key @ d # q \<and> is_digit d)"
proof -
  have "(prefix (js key) s \<and> drop (length key) s \<noteq> [] \<and> is_digit (hd (drop (length key) s)))
        \<longleftrightarrow> (\<exists>d q. s = js key @ d # q \<and> is_digit d)" (is "?L \<longleftrightarrow> ?R")
  proof
    assume l: ?L
    then obtain t where t: "s = js key @ t" by (auto simp: prefix_def)
    with l have "t \<noteq> []" "is_digit (hd t)" by auto
    then obtain d q where "t = d # q" "is_digit d" by (cases t) auto
    with t show ?R by blast
  next
    assume ?R
    then show ?L by auto
  qed
  then show ?thesis
    by (auto simp add: m_idp plus_lens_Nil_iff is_digit_def)
qed

lemma m_idp_Cons:
  assumes "m (idp key) (i, s, None) = (j, s', c) # rest"
  shows "\<exists>ds q. s = js key @ ds @ q \<and> digits ds \<and> (q = [] \<or> \<not> is_digit (hd q)) \<and>
           c = Some ds \<and> j = i + length key + length ds"
proof -
  let ?t = "drop (length key) s"
  let ?ds = "takeWhile (cls Digit) ?t"
  from assms have p: "prefix (js key) s" and ne: "plus_lens Digit ?t \<noteq> []"
    by (auto simp: m_idp split: if_splits)
  from assms p have "(j, s', c) = hd (map (\<lambda>n. (i + length key + n, drop n ?t, Some (take n ?t)))
      (plus_lens Digit ?t))"
    by (simp add: m_idp)
  also have "\<dots> = (i + length key + length ?ds, drop (length ?ds) ?t, Some (take (length ?ds) ?t))"
    using ne by (simp add: hd_map hd_plus_lens)
  finally have c: "c = Some ?ds" and j: "j = i + length key + length ?ds"
    by (simp_all add: takeWhile_eq_take [symmetric])
  from p have s: "s = js key @ ?ds @ dropWhile (cls Digit) ?t"
    by (auto simp: prefix_def)
  from ne have "?t \<noteq> []" "cls Digit (hd ?t)" by (auto simp: plus_lens_Nil_iff)
  then have "?ds \<noteq> []" by (cases ?t) auto
  moreover have "\<forall>d\<in>set ?ds. is_digit d"
    using set_takeWhileD [of _ "cls Digit" ?t] by (auto simp: is_digit_def)
  ultimately have d: "digits ?ds" by (simp add: digits_def)
  have "dropWhile (cls Digit) ?t = [] \<or> \<not> is_digit (hd (dropWhile (cls Digit) ?t))"
    using hd_dropWhile [of "cls Digit" ?t] by (auto simp: is_digit_def)
  with s d c j show ?thesis by blast
qed

lemma exec_from_Some_hd:
  "exec_from r i s = Some mt \<Longrightarrow>
   \<exists>p q j s' rest. s = p @ q \<and> m r (i + length p, q, None) = (j, s', match1 mt) # rest \<and>
     match0 mt = take (j - (i + length p)) q \<and>
     (\<forall>p' q'. s = p' @ q' \<and> length p' < length p \<longrightarrow> m r (i + length p', q', None) = [])"
proof (induction s arbitrary: i)
  case Nil
  then obtain j s' c rest where mm: "m r (i, [], None) = (j, s', c) # rest"
    by (subst (asm) exec_from.simps) (auto split: list.splits)
  with Nil have "mt = \<lparr>match0 = take (j - i) [], match1 = c\<rparr>"
    by (subst (asm) exec_from.simps) auto
  with mm have "[] = [] @ [] \<and> m r (i + length ([]::ustring), [], None) = (j, s', match1 mt) # rest \<and>
     match0 mt = take (j - (i + length ([]::ustring))) [] \<and>
     (\<forall>p' q'. [] = p' @ q' \<and> length p' < length ([]::ustring) \<longrightarrow> m r (i + length p', q', None) = [])"
    by simp
  then show ?case by - (intro exI, assumption)
next
  case (Cons x s)
  show ?case
  proof (cases "m r (i, x # s, None)")
    case Nil
    with Cons.prems have "exec_from r (Suc i) s = Some mt"
      by (subst (asm) exec_from.simps) simp
    from Cons.IH [OF this] obtain p q j s' rest where pq: "s = p @ q"
      "m r (Suc i + length p, q, None) = (j, s', match1 mt) # rest"
      "match0 mt = take (j - (Suc i + length p)) q"
      "\<forall>p' q'. s = p' @ q' \<and> length p' < length p \<longrightarrow> m r (Suc i + length p', q', None) = []"
      by blast
    have "m r (i + length p', q', None) = []"
      if "x # s = p' @ q'" "length p' < length (x # p)" for p' q'
    proof (cases p')
      case Nil
      with that \<open>m r (i, x # s, None) = []\<close> show ?thesis by simp
    next
      case (Cons y p'')
      with that have "s = p'' @ q'" "length p'' < length p" by auto
      with pq(4) Cons show ?thesis by simp
    qed
    with pq(1,2,3) have "x # s = (x # p) @ q \<and>
      m r (i + length (x # p), q, None) = (j, s', match1 mt) # rest \<and>
      match0 mt = take (j - (i + length (x # p))) q \<and>
      (\<forall>p' q'. x # s = p' @ q' \<and> length p' < length (x # p) \<longrightarrow> m r (i + length p', q', None) = [])"
      by simp
    then show ?thesis by - (intro exI, assumption)
  next
    case (Cons st rest)
    obtain j s' c where st: "st = (j, s', c)" by (cases st)
    with Cons Cons.prems have mt: "mt = \<lparr>match0 = take (j - i) (x # s), match1 = c\<rparr>"
      by (subst (asm) exec_from.simps) auto
    with Cons st have "x # s = [] @ (x # s) \<and>
      m r (i + length ([]::ustring), x # s, None) = (j, s', match1 mt) # rest \<and>
      match0 mt = take (j - (i + length ([]::ustring))) (x # s) \<and>
      (\<forall>p' q'. x # s = p' @ q' \<and> length p' < length ([]::ustring) \<longrightarrow> m r (i + length p', q', None) = [])"
      by simp
    then show ?thesis by - (intro exI, assumption)
  qed
qed

lemma match_idp_None: "match u (idp key) = None \<longleftrightarrow> \<not> has_id key u"
proof -
  have "match u (idp key) = None \<longleftrightarrow>
        (\<forall>p q. u = p @ q \<longrightarrow> \<not> (\<exists>d q'. q = js key @ d # q' \<and> is_digit d))"
    unfolding match_def exec_from_None by (simp add: m_idp_Nil_iff)
  also have "\<dots> \<longleftrightarrow> \<not> has_id key u"
    unfolding has_id_def by blast
  finally show ?thesis .
qed

lemma match_idp_Some:
  assumes "match u (idp key) = Some mt"
  shows "\<exists>ds. match1 mt = Some ds \<and> captures key u ds"
proof -
  from assms have "exec_from (idp key) 0 u = Some mt" by (simp add: match_def)
  from exec_from_Some_hd [OF this] obtain p q j s' rest where pq: "u = p @ q"
    "m (idp key) (length p, q, None) = (j, s', match1 mt) # rest"
    "\<forall>p' q'. u = p' @ q' \<and> length p' < length p \<longrightarrow> m (idp key) (length p', q', None) = []"
    by auto
  from m_idp_Cons [OF pq(2)] obtain ds q' where ds: "q = js key @ ds @ q'" "digits ds"
    "q' = [] \<or> \<not> is_digit (hd q')" "match1 mt = Some ds" by blast
  have "length p \<le> length p'" if "u = p' @ js key @ d # q''" "is_digit d" for p' d q''
  proof (rule ccontr)
    assume "\<not> length p \<le> length p'"
    with that(1) pq(3) have "m (idp key) (length p', js key @ d # q'', None) = []" by simp
    with that(2) show False by (simp add: m_idp_Nil_iff)
  qed
  with pq(1) ds have "match1 mt = Some ds \<and> captures key u ds"
    unfolding captures_def by blast
  then show ?thesis ..
qed

lemma id_patterns_idp: "id_patterns = [idp ''/video/'', idp ''/v/'', idp ''video_id='']"
  by (simp add: id_patterns_def idp_def)

lemma extractVideoId_first:
  "has_id ''/video/'' u \<Longrightarrow> \<exists>ds. extractVideoId u = Some ds \<and> captures ''/video/'' u ds"
proof -
  assume "has_id ''/video/'' u"
  then obtain mt where mt: "match u (idp ''/video/'') = Some mt"
    using match_idp_None [of u "''/video/''"] by auto
  from match_idp_Some [OF mt] mt show ?thesis
    by (auto simp: extractVideoId_def id_patterns_idp)
qed

lemma extractVideoId_second:
  assumes "\<not> has_id ''/video/'' u" "has_id ''/v/'' u"
  shows "\<exists>ds. extractVideoId u = Some ds \<and> captures ''/v/'' u ds"
proof -
  from assms(2) obtain mt where mt: "match u (idp ''/v/'') = Some mt"
    using match_idp_None [of u "''/v/''"] by auto
  from assms(1) have n: "match u (idp ''/video/'') = None" by (simp add: match_idp_None)
  from match_idp_Some [OF mt] mt n show ?thesis
    by (auto simp: extractVideoId_def id_patterns_idp)
qed

lemma extractVideoId_third:
  assumes "\<not> has_id ''/video/'' u" "\<not> has_id ''/v/'' u" "has_id ''video_id='' u"
  shows "\<exists>ds. extractVideoId u = Some ds \<and> captures ''video_id='' u ds"
proof -
  from assms(3) obtain mt where mt: "match u (idp ''video_id='') = Some mt"
    using match_idp_None [of u "''video_id=''"] by auto
  from assms(1,2) have n: "match u (idp ''/video/'') = None" "match u (idp ''/v/'') = None"
    by (simp_all add: match_idp_None)
  from match_idp_Some [OF mt] mt n show ?thesis
    by (auto simp: extractVideoId_def id_patterns_idp)
qed

lemma extractVideoId_none:
  assumes "\<not> has_id ''/video/'' u" "\<not> has_id ''/v/'' u" "\<not> has_id ''video_id='' u"
  shows "extractVideoId u = None"
proof -
  from assms have "match u (idp ''/video/'') = None" "match u (idp ''/v/'') = None"
    "match u (idp ''video_id='') = None"
    by (simp_all add: match_idp_None)
  then show ?thesis by (simp add: extractVideoId_def id_patterns_idp)
qed

lemma extractVideoId_cases:
  obtains (none) "extractVideoId u = None"
    "\<not> has_id ''/video/'' u" "\<not> has_id ''/v/'' u" "\<not> has_id ''video_id='' u"
  | (some) key ds where "extractVideoId u = Some ds" "captures key u ds"
proof (cases "has_id ''/video/'' u")
  case True
  from extractVideoId_first [OF this] some show ?thesis by blast
next
  case v: False
  show ?thesis
  proof (cases "has_id ''/v/'' u")
    case True
    from extractVideoId_second [OF v this] some show ?thesis by blast
  next
    case w: False
    show ?thesis
    proof (cases "has_id ''video_id='' u")
      case True
      from extractVideoId_third [OF v w this] some show ?thesis by blast
    next
      case False
      with v w extractVideoId_none [of u] none show ?thesis by blast
    qed
  qed
qed

lemma extractVideoId_None_iff:
  "extractVideoId u = None \<longleftrightarrow>
   \<not> has_id ''/video/'' u \<and> \<not> has_id ''/v/'' u \<and> \<not> has_id ''video_id='' u"
proof
  assume "extractVideoId u = None"
  then show "\<not> has_id ''/video/'' u \<and> \<not> has_id ''/v/'' u \<and> \<not> has_id ''video_id='' u"
    by (cases u rule: extractVideoId_cases) simp_all
next
  assume "\<not> has_id ''/video/'' u \<and> \<not> has_id ''/v/'' u \<and> \<not> has_id ''video_id='' u"
  then show "extractVideoId u = None" by (simp add: extractVideoId_none)
qed

lemma extractVideoId_nonempty: "extractVideoId u \<noteq> Some []"
proof (cases u rule: extractVideoId_cases)
  case none
  then show ?thesis by simp
next
  case (some key ds)
  from some(2) have "ds \<noteq> []" by (auto simp: captures_def digits_def)
  with some show ?thesis by simp
qed

section \<open>Requests issued and exceptions caught\<close>

lemma io_bind_return [simp]: "io_bind (io_return x) f = f x"
  by (simp add: io_bind_def io_return_def split: prod.splits)

lemma snd_io_try_return: "\<exists>y. snd (io_try p (\<lambda>e. io_return (h e))) = Inr y"
  by (cases p) (auto simp: io_try_def io_return_def split: sum.splits)

lemma fst_io_try_return: "fst (io_try p (\<lambda>e. io_return (h e))) = fst p"
  by (cases p) (auto simp: io_try_def io_return_def split: sum.splits)

lemma pure_io_simps [simp]: "pure_io (io_return x)" "pure_io (io_throw e)" "pure_io (io_lift r)"
  by (simp_all add: pure_io_def io_return_def io_throw_def io_lift_def)

lemma pure_io_bind: "pure_io p \<Longrightarrow> (\<And>x. pure_io (f x)) \<Longrightarrow> pure_io (io_bind p f)"
  by (cases p) (auto simp: pure_io_def io_bind_def split: sum.splits prod.splits)

lemma fst_bind_http_get: "(\<And>x. pure_io (f x)) \<Longrightarrow> fst (io_bind (http_get E rq) f) = [rq]"
  apply (auto simp: pure_io_def io_bind_def http_get_def split: sum.splits prod.splits)
  by (metis fst_conv)

lemma fst_fetchVideoData:
  "fst (fetchVideoData E self u) = [page_request self u]"
  unfolding fetchVideoData_def fst_io_try_return fetchVideoData_try_def
  by (rule fst_bind_http_get) (auto intro!: pure_io_bind split: option.splits)

lemma snd_fetchVideoData: "\<exists>r. snd (fetchVideoData E self u) = Inr r"
  unfolding fetchVideoData_def by (rule snd_io_try_return)

lemma snd_getWatermarkFreeUrl: "\<exists>r. snd (getWatermarkFreeUrl E self v) = Inr r"
  unfolding getWatermarkFreeUrl_def by (rule snd_io_try_return)

lemma fst_getWatermarkFreeUrl:
  "fst (getWatermarkFreeUrl E self v) = [api_request E self v]"
  unfolding getWatermarkFreeUrl_def fst_io_try_return getWatermarkFreeUrl_try_def
  by (rule fst_bind_http_get) (auto intro!: pure_io_bind)

lemma extractDownloadUrls_watermark:
  "includeWatermark self \<Longrightarrow>
   extractDownloadUrls E self vi = ([], Inr \<lparr>video = videoUrl vi, audio = url (music vi), watermarkFree = None\<rparr>)"
  by (simp add: extractDownloadUrls_def io_try_def io_return_def)

lemma snd_extractDownloadUrls:
  "\<exists>w. snd (extractDownloadUrls E self vi) = Inr \<lparr>video = videoUrl vi, audio = url (music vi), watermarkFree = w\<rparr>"
proof -
  obtain t r where g: "getWatermarkFreeUrl E self (video_id vi) = (t, Inr r)"
    using snd_getWatermarkFreeUrl [of E self "video_id vi"] by (metis prod.collapse)
  show ?thesis
    by (simp add: extractDownloadUrls_def io_try_def io_return_def io_bind_def g Let_def)
qed

lemma snd_io_bind_Inr:
  "snd p = Inr x \<Longrightarrow> snd (io_bind p f) = snd (f x)"
  by (cases p) (auto simp: io_bind_def split: prod.splits)

lemma fst_io_bind_Inr:
  "snd p = Inr x \<Longrightarrow> fst (io_bind p f) = fst p @ fst (f x)"
  by (cases p) (auto simp: io_bind_def split: prod.splits)

lemma snd_io_return [simp]: "snd (io_return x) = Inr x"
  by (simp add: io_return_def)

lemma fst_io_return [simp]: "fst (io_return x) = []"
  by (simp add: io_return_def)

lemma snd_downloadVideo_try: "\<exists>r. snd (downloadVideo_try E self u) = Inr r"
proof -
  obtain r where f: "snd (fetchVideoData E self (cleanTikTokUrl u)) = Inr r"
    using snd_fetchVideoData by blast
  have x: "\<exists>w. snd (extractDownloadUrls E self vi) = Inr w" for vi
    using snd_extractDownloadUrls [of E self vi] by blast
  show ?thesis
  proof (cases r)
    case None
    with f show ?thesis
      by (simp add: downloadVideo_try_def Let_def snd_io_bind_Inr [OF f])
  next
    case (Some vi)
    obtain w where w: "snd (extractDownloadUrls E self vi) = Inr w" using x by blast
    show ?thesis
      by (simp add: downloadVideo_try_def Let_def snd_io_bind_Inr [OF f] Some snd_io_bind_Inr [OF w])
  qed
qed

section \<open>The outcomes of downloadVideo\<close>

lemma io_try_Inr: "snd p = Inr x \<Longrightarrow> io_try p h = p"
  by (cases p) (simp add: io_try_def)

lemma downloadVideo_no_throw: "downloadVideo E self u = downloadVideo_try E self u"
  using snd_downloadVideo_try [of E self u] by (auto simp: downloadVideo_def io_try_Inr)

lemma downloadVideo_invalid:
  "\<not> isValidTikTokUrl (cleanTikTokUrl u) \<Longrightarrow>
   downloadVideo E self u =
     ([], Inr (failure ''Invalid TikTok URL provided''
                (js ''URL format is not recognized as a valid TikTok video URL'')))"
  by (simp add: downloadVideo_no_throw downloadVideo_try_def io_return_def failure_def)

lemma downloadVideo_no_id:
  "isValidTikTokUrl (cleanTikTokUrl u) \<Longrightarrow> extractVideoId (cleanTikTokUrl u) = None \<Longrightarrow>
   downloadVideo E self u =
     ([], Inr (failure ''Could not extract video ID from URL'' (js ''Video ID extraction failed'')))"
  by (simp add: downloadVideo_no_throw downloadVideo_try_def io_return_def failure_def)

lemma downloadVideo_no_data:
  assumes "isValidTikTokUrl (cleanTikTokUrl u)" "extractVideoId (cleanTikTokUrl u) \<noteq> None"
    "snd (fetchVideoData E self (cleanTikTokUrl u)) = Inr None"
  shows "downloadVideo E self u =
     ([page_request self (cleanTikTokUrl u)],
      Inr (failure ''Failed to fetch video data''
            (js ''Could not retrieve video information from TikTok'')))"
proof -
  from assms(3) fst_fetchVideoData [of E self "cleanTikTokUrl u"]
  have f: "fetchVideoData E self (cleanTikTokUrl u) = ([page_request self (cleanTikTokUrl u)], Inr None)"
    by (metis prod.collapse)
  from assms(2) have "extractVideoId (cleanTikTokUrl u) \<noteq> Some []"
    by (simp add: extractVideoId_nonempty)
  with assms(1,2) show ?thesis
    by (simp add: downloadVideo_no_throw downloadVideo_try_def Let_def f io_bind_def
        io_return_def failure_def)
qed

lemma downloadVideo_data:
  assumes "isValidTikTokUrl (cleanTikTokUrl u)" "extractVideoId (cleanTikTokUrl u) \<noteq> None"
    "snd (fetchVideoData E self (cleanTikTokUrl u)) = Inr (Some vi)"
    "extractDownloadUrls E self vi = (t, Inr urls)"
  shows "downloadVideo E self u =
     (page_request self (cleanTikTokUrl u) # t, Inr (succeeded vi urls))"
proof -
  from assms(3) fst_fetchVideoData [of E self "cleanTikTokUrl u"]
  have f: "fetchVideoData E self (cleanTikTokUrl u) = ([page_request self (cleanTikTokUrl u)], Inr (Some vi))"
    by (metis prod.collapse)
  from assms(2) have "extractVideoId (cleanTikTokUrl u) \<noteq> Some []"
    by (simp add: extractVideoId_nonempty)
  with assms(1,2) show ?thesis
    by (simp add: downloadVideo_no_throw downloadVideo_try_def Let_def f io_bind_def
        io_return_def succeeded_def assms(4))
qed

lemma extractDownloadUrls_eq:
  "\<exists>t w. extractDownloadUrls E self vi =
     (t, Inr \<lparr>video = videoUrl vi, audio = url (music vi), watermarkFree = w\<rparr>)"
  using snd_extractDownloadUrls [of E self vi] by (metis prod.collapse)

section \<open>The examples evaluated\<close>

lemma url_demo_clean: "cleanTikTokUrl url_demo = url_demo"
  by (simp add: url_demo_def cleanTikTokUrl_def js_def trim_def isWhiteSpace_def match_def
      clean_pattern_def scheme_def canonical_tail_def exec_from.simps)

lemma url_demo_valid: "isValidTikTokUrl url_demo"
  by (simp add: url_demo_def isValidTikTokUrl_def valid_patterns_def test_def js_def match_def
      scheme_def canonical_tail_def exec_from.simps)

lemma url_demo_id: "extractVideoId url_demo = Some (js ''111222333'')"
  by (simp add: url_demo_def extractVideoId_def id_patterns_def js_def match_def exec_from.simps)

lemma fetch_down: "snd (fetchVideoData E_down self u) = Inr None"
  by (simp add: fetchVideoData_def fetchVideoData_try_def io_try_def io_bind_def http_get_def
      io_return_def E_down_def)


lemma isValidTikTokUrl_iff: "isValidTikTokUrl u \<longleftrightarrow> url_shape required_scheme u"
  unfolding isValidTikTokUrl_def valid_patterns_def list_ex_Cons_iff list_ex_Nil_iff
    test_scheme_then lang_canonical_tail lang_vm lang_vt lang_mobile url_shape_def starts_with_def
  by simp

lemma canonical_body_example: "canonical_body (js ''tiktok.com/@user/video/1'')"
  unfolding canonical_body_def
  apply (rule exI [of _ "[]"])
  apply (rule exI [of _ "js ''user''"])
  apply (rule exI [of _ "js ''1''"])
  apply (simp add: handle_def digits_def is_digit_def js_def)
  done

lemma download_down:
  "downloadVideo E_down self url_demo =
     ([page_request self url_demo],
      Inr (failure ''Failed to fetch video data''
            (js ''Could not retrieve video information from TikTok'')))"
  using downloadVideo_no_data [of url_demo E_down self]
  by (simp add: url_demo_clean url_demo_valid url_demo_id fetch_down)

lemma demo_item_info: "videoInfo_of_item demo_item = Inr vi_demo"
  by (simp add: videoInfo_of_item_def demo_item_def demo_fields_def demo_stats_def vi_demo_def
      and_then_def or_else_def js_def)

lemma fetch_demo: "snd (fetchVideoData E_demo self url_demo) = Inr (Some vi_demo)"
proof -
  have "snd (fetchVideoData_try E_demo self url_demo) = Inr (Some vi_demo)"
    by (simp add: fetchVideoData_try_def io_bind_def http_get_def io_lift_def io_return_def
        E_demo_def page_request_def demo_json_def demo_item_info js_def [of "''{}''"]
        js_def [of "''__DEFAULT_SCOPE__''"] js_def [of "''webapp.video-detail''"]
        js_def [of "''itemInfo''"] js_def [of "''itemStruct''"])
  then show ?thesis by (simp add: fetchVideoData_def io_try_Inr)
qed







lemma getWatermarkFreeUrl_fails:
  assumes "mirror_fails E (api_request E self v)"
  shows "getWatermarkFreeUrl E self v = ([api_request E self v], Inr JNull)"
proof (cases "axios_get E (api_request E self v)")
  case (Inl e)
  then show ?thesis
    by (simp add: getWatermarkFreeUrl_def getWatermarkFreeUrl_try_def io_try_def io_bind_def
        http_get_def io_return_def)
next
  case (Inr d)
  with assms have n: "noWatermark_field d = None" by (simp add: mirror_fails_def)
  have "getWatermarkFreeUrl_try E self v = ([api_request E self v], Inr JNull)"
  proof (cases d)
    case (JObj kvs)
    show ?thesis
    proof (cases "map_of kvs (js ''video'')")
      case None
      with Inr JObj show ?thesis
        by (simp add: getWatermarkFreeUrl_try_def io_bind_def http_get_def io_return_def
            io_lift_def)
    next
      case (Some vv)
      show ?thesis
      proof (cases vv)
        case (JObj vkvs)
        with n \<open>d = JObj kvs\<close> Some have "map_of vkvs (js ''noWatermark'') = None"
          by (simp add: noWatermark_field_def)
        with Inr \<open>d = JObj kvs\<close> Some JObj show ?thesis
          by (simp add: getWatermarkFreeUrl_try_def io_bind_def http_get_def io_return_def
              io_lift_def)
      qed (use Inr \<open>d = JObj kvs\<close> Some in
            \<open>simp_all add: getWatermarkFreeUrl_try_def io_bind_def http_get_def io_return_def
              io_lift_def\<close>)
    qed
  qed (use Inr in \<open>simp_all add: getWatermarkFreeUrl_try_def io_bind_def http_get_def
        io_return_def io_lift_def\<close>)
  then show ?thesis by (simp add: getWatermarkFreeUrl_def io_try_Inr)
qed

lemma extractDownloadUrls_fails:
  assumes "\<not> includeWatermark self" "mirror_fails E (api_request E self (video_id vi))"
  shows "extractDownloadUrls E self vi =
     ([api_request E self (video_id vi)],
      Inr \<lparr>video = videoUrl vi, audio = url (music vi), watermarkFree = None\<rparr>)"
  using assms(1)
  by (simp add: extractDownloadUrls_def getWatermarkFreeUrl_fails [OF assms(2)] io_try_def
      io_bind_def io_return_def)


lemma mirror_fails_demo: "mirror_fails E_demo (api_request E_demo self (video_id vi_demo))"
  by (simp add: mirror_fails_def E_demo_def api_request_def apiUrl_def url_demo_def js_def)

lemma fetch_throws:
  "snd (fetchVideoData_try E self u) = Inl e \<Longrightarrow> snd (fetchVideoData E self u) = Inr None"
  by (cases "fetchVideoData_try E self u")
     (simp add: fetchVideoData_def io_try_def io_return_def)

lemma url_junk_invalid: "\<not> isValidTikTokUrl (cleanTikTokUrl url_junk)"
  by (simp add: url_junk_def cleanTikTokUrl_def js_def trim_def isWhiteSpace_def match_def
      clean_pattern_def scheme_def canonical_tail_def exec_from.simps isValidTikTokUrl_def
      valid_patterns_def test_def)

lemma url_short_clean: "cleanTikTokUrl url_short = url_short"
  by (simp add: url_short_def cleanTikTokUrl_def js_def trim_def isWhiteSpace_def)

lemma url_short_valid: "isValidTikTokUrl url_short"
  by (simp add: url_short_def isValidTikTokUrl_def valid_patterns_def test_def js_def match_def
      scheme_def canonical_tail_def exec_from.simps)

lemma url_short_no_id: "extractVideoId url_short = None"
  by (simp add: url_short_def extractVideoId_def id_patterns_def js_def match_def exec_from.simps)

section \<open>Trimming, substrings and short links\<close>

lemma includes_str_iff: "includes_str s t \<longleftrightarrow> contains s t"
proof (induction s)
  case Nil
  show ?case by (auto simp: contains_def)
next
  case (Cons c s)
  have "contains (c # s) t \<longleftrightarrow> prefix t (c # s) \<or> contains s t"
  proof
    assume "contains (c # s) t"
    then obtain p q where pq: "c # s = p @ t @ q" by (auto simp: contains_def)
    show "prefix t (c # s) \<or> contains s t"
    proof (cases p)
      case Nil
      with pq show ?thesis by (auto simp: prefix_def)
    next
      case (Cons x p')
      with pq have "s = p' @ t @ q" by simp
      then show ?thesis by (auto simp: contains_def)
    qed
  next
    assume "prefix t (c # s) \<or> contains s t"
    then show "contains (c # s) t"
    proof
      assume "prefix t (c # s)"
      then obtain q where "c # s = [] @ t @ q" by (auto simp: prefix_def)
      then show ?thesis unfolding contains_def by blast
    next
      assume "contains s t"
      then obtain p q where "s = p @ t @ q" by (auto simp: contains_def)
      then have "c # s = (c # p) @ t @ q" by simp
      then show ?thesis unfolding contains_def by blast
    qed
  qed
  with Cons.IH show ?case by simp
qed

lemma trim_trimmed: "trimmed u (trim u)"
proof -
  let ?v = "dropWhile isWhiteSpace u"
  let ?a = "takeWhile isWhiteSpace u"
  let ?b = "rev (takeWhile isWhiteSpace (rev ?v))"
  have v: "?v = trim u @ ?b"
  proof -
    have "trim u @ ?b = rev (takeWhile isWhiteSpace (rev ?v) @ dropWhile isWhiteSpace (rev ?v))"
      by (simp only: trim_def rev_append)
    also have "\<dots> = rev (rev ?v)" by (simp only: takeWhile_dropWhile_id)
    also have "\<dots> = ?v" by simp
    finally show ?thesis by simp
  qed
  have u: "u = ?a @ trim u @ ?b"
  proof -
    have "u = ?a @ ?v" by simp
    with v show ?thesis by simp
  qed
  have a: "\<forall>c\<in>set ?a. isWhiteSpace c" using set_takeWhileD by fastforce
  have b: "\<forall>c\<in>set ?b. isWhiteSpace c" using set_takeWhileD by fastforce
  have e: "\<not> isWhiteSpace (hd (trim u)) \<and> \<not> isWhiteSpace (last (trim u))" if ne: "trim u \<noteq> []"
  proof
    from ne v have "?v \<noteq> []" by (metis append_is_Nil_conv)
    then have "\<not> isWhiteSpace (hd ?v)" by (rule hd_dropWhile)
    moreover from v ne have "hd ?v = hd (trim u)" by (metis hd_append2)
    ultimately show "\<not> isWhiteSpace (hd (trim u))" by simp
    from ne have d: "dropWhile isWhiteSpace (rev ?v) \<noteq> []" by (simp add: trim_def)
    then have "\<not> isWhiteSpace (hd (dropWhile isWhiteSpace (rev ?v)))" by (rule hd_dropWhile)
    moreover have "last (trim u) = hd (dropWhile isWhiteSpace (rev ?v))"
      using d by (simp add: trim_def last_rev)
    ultimately show "\<not> isWhiteSpace (last (trim u))" by simp
  qed
  from u a b e show ?thesis unfolding trimmed_def by blast
qed

lemma trim_keeps_prefix:
  assumes "pre \<noteq> []" "\<not> isWhiteSpace (hd pre)" "\<not> isWhiteSpace (last pre)"
  shows "\<exists>rest'. trim (pre @ rest) = pre @ rest'"
proof -
  from assms(1,2) have d: "dropWhile isWhiteSpace (pre @ rest) = pre @ rest"
    by (cases pre) auto
  have l: "last pre \<in> set (rev pre)" using assms(1) by simp
  have "dropWhile isWhiteSpace (rev rest @ rev pre) =
      (if \<forall>x\<in>set (rev rest). isWhiteSpace x then dropWhile isWhiteSpace (rev pre)
       else dropWhile isWhiteSpace (rev rest) @ rev pre)"
    by (rule dropWhile_append)
  moreover have "dropWhile isWhiteSpace (rev pre) = rev pre"
    using assms(1,3) by (simp add: dropWhile_eq_self_iff hd_rev)
  ultimately have "trim (pre @ rest) = pre \<or>
      trim (pre @ rest) = pre @ rev (dropWhile isWhiteSpace (rev rest))"
    by (simp add: trim_def d)
  then show ?thesis by auto
qed


lemma lang_clean_pattern: "w \<in> lang clean_pattern i \<longleftrightarrow> canonical_url w"
  unfolding clean_pattern_def lang_Cat lang_Opt lang_scheme lang_canonical_tail canonical_url_def
    optional_scheme_def
  by auto

lemma match_clean_None:
  "match s clean_pattern = None \<longleftrightarrow> \<not> (\<exists>w. contains s w \<and> canonical_url w)"
proof -
  have "match s clean_pattern = None \<longleftrightarrow> \<not> test clean_pattern s" by (simp add: test_def)
  also have "\<dots> \<longleftrightarrow> \<not> (\<exists>p w q. s = p @ w @ q \<and> canonical_url w)"
    by (simp add: test_iff lang_clean_pattern)
  also have "\<dots> \<longleftrightarrow> \<not> (\<exists>w. contains s w \<and> canonical_url w)"
    unfolding contains_def by blast
  finally show ?thesis .
qed

lemma match_clean_Some:
  assumes "match s clean_pattern = Some mt"
  shows "contains s (match0 mt) \<and> canonical_url (match0 mt)"
proof -
  from assms have "exec_from clean_pattern 0 s = Some mt" by (simp add: match_def)
  from exec_from_Some [OF this] obtain p q where "s = p @ match0 mt @ q"
    "match0 mt \<in> lang clean_pattern (0 + length p)" by blast
  then show ?thesis unfolding contains_def lang_clean_pattern by blast
qed

lemma clean_example:
  "cleanTikTokUrl (js ''  https://www.tiktok.com/@user/video/1234567890  '') =
     js ''https://www.tiktok.com/@user/video/1234567890''"
  by (simp add: cleanTikTokUrl_def js_def trim_def isWhiteSpace_def match_def clean_pattern_def
      scheme_def canonical_tail_def exec_from.simps)

lemma padded_no_short:
  "\<not> contains (trim url_padded) (js ''vm.tiktok.com'') \<and>
   \<not> contains (trim url_padded) (js ''vt.tiktok.com'')"
  unfolding includes_str_iff [symmetric]
  by (simp add: url_padded_def js_def trim_def isWhiteSpace_def)

lemma padded_canonical: "\<exists>w. contains (trim url_padded) w \<and> canonical_url w"
proof -
  have "match (trim url_padded) clean_pattern \<noteq> None"
    by (simp add: url_padded_def js_def trim_def isWhiteSpace_def match_def clean_pattern_def
        scheme_def canonical_tail_def exec_from.simps)
  then show ?thesis by (simp add: match_clean_None)
qed

lemma short_padded_contains: "contains (trim url_short_padded) (js ''vt.tiktok.com'')"
  unfolding includes_str_iff [symmetric]
  by (simp add: url_short_padded_def js_def trim_def isWhiteSpace_def)

lemma junk_no_short:
  "\<not> contains (trim url_junk) (js ''vm.tiktok.com'') \<and>
   \<not> contains (trim url_junk) (js ''vt.tiktok.com'')"
  unfolding includes_str_iff [symmetric]
  by (simp add: url_junk_def js_def trim_def isWhiteSpace_def)

lemma junk_not_canonical: "\<not> (\<exists>w. contains (trim url_junk) w \<and> canonical_url w)"
proof -
  have "match (trim url_junk) clean_pattern = None"
    by (simp add: url_junk_def js_def trim_def isWhiteSpace_def match_def clean_pattern_def
        scheme_def canonical_tail_def exec_from.simps)
  then show ?thesis by (simp add: match_clean_None)
qed

lemma has_id_match: "has_id key u \<longleftrightarrow> match u (idp key) \<noteq> None"
  by (simp add: match_idp_None)

lemma url_canonical_id:
  "has_id ''/video/'' url_canonical \<and> extractVideoId url_canonical = Some (js ''1234567890'')"
  unfolding has_id_match
  by (simp add: url_canonical_def idp_def extractVideoId_def id_patterns_def js_def match_def
      exec_from.simps)

lemma url_mobile_id:
  "\<not> has_id ''/video/'' url_mobile \<and> has_id ''/v/'' url_mobile \<and>
   extractVideoId url_mobile = Some (js ''777'')"
  unfolding has_id_match
  by (simp add: url_mobile_def idp_def extractVideoId_def id_patterns_def js_def match_def
      exec_from.simps)

lemma url_query_id:
  "\<not> has_id ''/video/'' url_query \<and> \<not> has_id ''/v/'' url_query \<and>
   has_id ''video_id='' url_query \<and> extractVideoId url_query = Some (js ''42'')"
  unfolding has_id_match
  by (simp add: url_query_def idp_def extractVideoId_def id_patterns_def js_def match_def
      exec_from.simps)

lemma url_short_ids:
  "\<not> has_id ''/video/'' url_short \<and> \<not> has_id ''/v/'' url_short \<and>
   \<not> has_id ''video_id='' url_short"
  unfolding has_id_match
  by (simp add: url_short_def idp_def js_def match_def exec_from.simps)

lemma has_id_sublist: "has_id key t \<Longrightarrow> has_id key (a @ t @ b)"
proof -
  assume "has_id key t"
  then obtain p d q where "t = p @ js key @ d # q" "is_digit d" by (auto simp: has_id_def)
  then have "a @ t @ b = (a @ p) @ js key @ d # (q @ b) \<and> is_digit d" by simp
  then show ?thesis unfolding has_id_def by blast
qed

lemma has_id_trim: "has_id key (trim u) \<Longrightarrow> has_id key u"
proof -
  assume h: "has_id key (trim u)"
  from trim_trimmed [of u] obtain a b where "u = a @ trim u @ b" by (auto simp: trimmed_def)
  with has_id_sublist [OF h, of a b] show ?thesis by simp
qed

lemma alnum_not_space:
  "(65 \<le> c \<and> c \<le> 90) \<or> (97 \<le> c \<and> c \<le> 122) \<or> is_digit c \<Longrightarrow> \<not> isWhiteSpace c"
  by (auto simp: isWhiteSpace_def is_digit_def)

lemma short_body_trim:
  assumes "sc \<in> required_scheme" "alnums w"
  shows "\<exists>rest'. trim (sc @ host @ w @ rest) = sc @ host @ w @ rest'"
proof -
  let ?pre = "sc @ host @ w"
  from assms(2) have w: "w \<noteq> []" by (simp add: alnums_def)
  from assms(1) have "sc \<noteq> [] \<and> hd sc = 104"
    by (auto simp: required_scheme_def js_def)
  then have h: "?pre \<noteq> []" "\<not> isWhiteSpace (hd ?pre)" by (auto simp: isWhiteSpace_def)
  from w have "last ?pre = last w" by simp
  moreover from assms(2) w have "\<not> isWhiteSpace (last w)"
    using alnum_not_space [of "last w"] last_in_set [of w] by (auto simp: alnums_def)
  ultimately have l: "\<not> isWhiteSpace (last ?pre)" by simp
  from trim_keeps_prefix [OF h l, of rest] show ?thesis by simp
qed

lemma short_link_trim: "short_link u \<Longrightarrow> short_link (trim u)"
proof -
  assume "short_link u"
  then consider (vm) sc w rest where "sc \<in> required_scheme" "alnums w"
      "u = sc @ js ''vm.tiktok.com/'' @ w @ rest"
    | (vt) sc w rest where "sc \<in> required_scheme" "alnums w"
      "u = sc @ js ''vt.tiktok.com/'' @ w @ rest"
    by (auto simp: short_link_def starts_with_def vm_body_def vt_body_def)
  then show ?thesis
  proof cases
    case vm
    from short_body_trim [OF vm(1,2), of "js ''vm.tiktok.com/''" rest] vm(3)
    obtain rest' where "trim u = sc @ (js ''vm.tiktok.com/'' @ w) @ rest'" by auto
    with vm(1,2) have "starts_with required_scheme vm_body (trim u)"
      unfolding starts_with_def vm_body_def by blast
    then show ?thesis by (simp add: short_link_def)
  next
    case vt
    from short_body_trim [OF vt(1,2), of "js ''vt.tiktok.com/''" rest] vt(3)
    obtain rest' where "trim u = sc @ (js ''vt.tiktok.com/'' @ w) @ rest'" by auto
    with vt(1,2) have "starts_with required_scheme vt_body (trim u)"
      unfolding starts_with_def vt_body_def by blast
    then show ?thesis by (simp add: short_link_def)
  qed
qed

lemma short_link_contains:
  "short_link t \<Longrightarrow> contains t (js ''vm.tiktok.com'') \<or> contains t (js ''vt.tiktok.com'')"
proof -
  assume "short_link t"
  then consider (vm) sc w rest where "t = sc @ js ''vm.tiktok.com/'' @ w @ rest"
    | (vt) sc w rest where "t = sc @ js ''vt.tiktok.com/'' @ w @ rest"
    by (auto simp: short_link_def starts_with_def vm_body_def vt_body_def)
  then show ?thesis
  proof cases
    case vm
    have "js ''vm.tiktok.com/'' = js ''vm.tiktok.com'' @ js ''/''" by (simp add: js_def)
    with vm have "t = sc @ js ''vm.tiktok.com'' @ (js ''/'' @ w @ rest)" by simp
    then show ?thesis unfolding contains_def by blast
  next
    case vt
    have "js ''vt.tiktok.com/'' = js ''vt.tiktok.com'' @ js ''/''" by (simp add: js_def)
    with vt have "t = sc @ js ''vt.tiktok.com'' @ (js ''/'' @ w @ rest)" by simp
    then show ?thesis unfolding contains_def by blast
  qed
qed

lemma short_link_valid: "short_link t \<Longrightarrow> isValidTikTokUrl t"
  by (simp add: isValidTikTokUrl_iff url_shape_def short_link_def) blast


lemma url_short_is_short: "short_link url_short"
proof -
  have a: "alnums (js ''ZMabc123'')" by (simp add: alnums_def is_digit_def js_def)
  then have "vm_body (js ''vm.tiktok.com/'' @ js ''ZMabc123'')" unfolding vm_body_def by blast
  moreover have "js ''https://'' \<in> required_scheme" by (simp add: required_scheme_def)
  moreover have "url_short = js ''https://'' @ (js ''vm.tiktok.com/'' @ js ''ZMabc123'') @ js ''/''"
    by (simp add: url_short_def js_def)
  ultimately have "starts_with required_scheme vm_body url_short"
    unfolding starts_with_def by blast
  then show ?thesis by (simp add: short_link_def)
qed

lemma hd_concat_map:
  "concat (map f ys) = x # rest \<Longrightarrow> \<exists>y\<in>set ys. \<exists>rest'. f y = x # rest'"
proof (induction ys)
  case Nil
  then show ?case by simp
next
  case (Cons y ys)
  show ?case
  proof (cases "f y")
    case Nil
    with Cons show ?thesis by auto
  next
    case (Cons z zs)
    with Cons.prems show ?thesis by auto
  qed
qed

lemma m_greedy_digits:
  "ends_digits r \<Longrightarrow> m r st = (j, s', c) # rest \<Longrightarrow> s' = [] \<or> \<not> is_digit (hd s')"
proof (induction r arbitrary: st j s' c rest)
  case (Plus k)
  obtain i s c0 where st: "st = (i, s, c0)" by (cases st)
  from Plus.prems(1) have k: "k = Digit" by simp
  from Plus.prems(2) st have ne: "plus_lens k s \<noteq> []" by auto
  from Plus.prems(2) st have "(j, s', c) = hd (map (\<lambda>n. (i + n, drop n s, c0)) (plus_lens k s))"
    by simp
  also have "\<dots> = (i + length (takeWhile (cls k) s), drop (length (takeWhile (cls k) s)) s, c0)"
    using ne by (simp add: hd_map hd_plus_lens)
  finally have "s' = dropWhile (cls k) s" by (simp add: dropWhile_eq_drop)
  with hd_dropWhile [of "cls k" s] k show ?case by (auto simp: is_digit_def)
next
  case (Cat r1 r2)
  from Cat.prems(2) have "concat (map (m r2) (m r1 st)) = (j, s', c) # rest" by simp
  from hd_concat_map [OF this] obtain y rest' where "m r2 y = (j, s', c) # rest'" by blast
  with Cat.IH(2) Cat.prems(1) show ?case by simp
qed simp_all


lemma ends_digits_clean_pattern: "ends_digits clean_pattern"
  by (simp add: clean_pattern_def canonical_tail_def)

lemma match_clean_first:
  assumes "match t clean_pattern = Some mt"
  shows "first_canonical t (match0 mt)"
proof -
  from assms have "exec_from clean_pattern 0 t = Some mt" by (simp add: match_def)
  from exec_from_Some_hd [OF this] obtain p q0 j s' rest where pq: "t = p @ q0"
    "m clean_pattern (length p, q0, None) = (j, s', match1 mt) # rest"
    "match0 mt = take (j - length p) q0"
    "\<forall>p' q'. t = p' @ q' \<and> length p' < length p \<longrightarrow> m clean_pattern (length p', q', None) = []"
    by auto
  from pq(2) have "(j, s', match1 mt) \<in> set (m clean_pattern (length p, q0, None))" by simp
  from m_sound [OF this] obtain w where w: "w \<in> lang clean_pattern (length p)" "q0 = w @ s'"
    "j = length p + length w" by blast
  with pq(3) have mw: "match0 mt = w" by simp
  from w(1) have c: "canonical_url w" by (simp add: lang_clean_pattern)
  from m_greedy_digits [OF ends_digits_clean_pattern pq(2)]
  have g: "s' = [] \<or> \<not> is_digit (hd s')" .
  have l: "length p \<le> length p'" if "t = p' @ w' @ q'" "canonical_url w'" for p' w' q'
  proof (rule ccontr)
    assume "\<not> length p \<le> length p'"
    with that(1) pq(4) have "m clean_pattern (length p', w' @ q', None) = []" by simp
    then have "\<not> (\<exists>w s'. w' @ q' = w @ s' \<and> canonical_url w)"
      by (simp add: m_empty_iff lang_clean_pattern)
    with that(2) show False by blast
  qed
  from pq(1) w(2) have "t = p @ w @ s'" by simp
  with c g l mw show ?thesis unfolding first_canonical_def by blast
qed

lemma takeWhile_run:
  "\<forall>x\<in>set xs. P x \<Longrightarrow> q = [] \<or> \<not> P (hd q) \<Longrightarrow> takeWhile P (xs @ q) = xs"
  by (cases q) (auto simp: takeWhile_append2)

lemma run_unique:
  assumes "\<forall>x\<in>set xs. P x" "q = [] \<or> \<not> P (hd q)"
    and "\<forall>x\<in>set ys. P x" "r = [] \<or> \<not> P (hd r)"
    and "xs @ q = ys @ r"
  shows "xs = ys \<and> q = r"
proof -
  from takeWhile_run [OF assms(1,2)] takeWhile_run [OF assms(3,4)] assms(5)
  have "xs = ys" by simp
  with assms(5) show ?thesis by simp
qed

lemma handle_unique:
  assumes "handle h" "handle h'" "h @ js ''/video/'' @ r = h' @ js ''/video/'' @ r'"
  shows "h = h' \<and> r = r'"
proof -
  have v: "js ''/video/'' = 47 # js ''video/''" by (simp add: js_def)
  from assms(1,2) have a: "\<forall>x\<in>set h. x \<noteq> 47" "\<forall>x\<in>set h'. x \<noteq> 47"
    by (auto simp: handle_def)
  have b: "47 # js ''video/'' @ r = [] \<or> \<not> hd (47 # js ''video/'' @ r) \<noteq> (47::nat)"
    "47 # js ''video/'' @ r' = [] \<or> \<not> hd (47 # js ''video/'' @ r') \<noteq> (47::nat)"
    by simp_all
  from assms(3) have e: "h @ (47 # js ''video/'' @ r) = h' @ (47 # js ''video/'' @ r')"
    by (simp add: v)
  from run_unique [of h "\<lambda>x. x \<noteq> 47", OF a(1) b(1) a(2) b(2) e] show ?thesis by simp
qed


lemma prefix_choice:
  assumes "sc \<in> optional_scheme" "www = [] \<or> www = js ''www.''"
    and "sc' \<in> optional_scheme" "www' = [] \<or> www' = js ''www.''"
    and "sc @ www @ js ''tiktok.com/@'' @ x = sc' @ www' @ js ''tiktok.com/@'' @ x'"
  shows "sc = sc' \<and> www = www' \<and> x = x'"
  using assms by (auto simp: optional_scheme_def required_scheme_def js_def)

lemma canonical_prefix_unique:
  assumes "canonical_url w" "canonical_url w'" "w @ q = w' @ q'"
    and "q = [] \<or> \<not> is_digit (hd q)" "q' = [] \<or> \<not> is_digit (hd q')"
  shows "w = w'"
proof -
  from assms(1) obtain sc www h ds where w: "sc \<in> optional_scheme" "www = [] \<or> www = js ''www.''"
    "handle h" "digits ds" "w = sc @ www @ js ''tiktok.com/@'' @ h @ js ''/video/'' @ ds"
    by (auto simp: canonical_url_def canonical_body_def)
  from assms(2) obtain sc' www' h' ds' where w': "sc' \<in> optional_scheme"
    "www' = [] \<or> www' = js ''www.''" "handle h'" "digits ds'"
    "w' = sc' @ www' @ js ''tiktok.com/@'' @ h' @ js ''/video/'' @ ds'"
    by (auto simp: canonical_url_def canonical_body_def)
  from assms(3) w(5) w'(5)
  have "sc @ www @ js ''tiktok.com/@'' @ (h @ js ''/video/'' @ ds @ q) =
        sc' @ www' @ js ''tiktok.com/@'' @ (h' @ js ''/video/'' @ ds' @ q')"
    by simp
  from prefix_choice [OF w(1,2) w'(1,2) this]
  have e: "sc = sc'" "www = www'" "h @ js ''/video/'' @ ds @ q = h' @ js ''/video/'' @ ds' @ q'"
    by simp_all
  from handle_unique [OF w(3) w'(3) e(3)] have f: "h = h'" "ds @ q = ds' @ q'" by simp_all
  from w(4) w'(4) have d: "\<forall>x\<in>set ds. is_digit x" "\<forall>x\<in>set ds'. is_digit x"
    by (simp_all add: digits_def)
  from run_unique [OF d(1) assms(4) d(2) assms(5) f(2)] have "ds = ds'" by simp
  with e f w(5) w'(5) show ?thesis by simp
qed

lemma first_canonical_unique:
  assumes "first_canonical t w" "first_canonical t w'"
  shows "w = w'"
proof -
  from assms(1) obtain p q where a: "t = p @ w @ q" "canonical_url w"
    "q = [] \<or> \<not> is_digit (hd q)"
    "\<forall>p' w' q'. t = p' @ w' @ q' \<and> canonical_url w' \<longrightarrow> length p \<le> length p'"
    unfolding first_canonical_def by blast
  from assms(2) obtain p' q' where b: "t = p' @ w' @ q'" "canonical_url w'"
    "q' = [] \<or> \<not> is_digit (hd q')"
    "\<forall>p'' w'' q''. t = p'' @ w'' @ q'' \<and> canonical_url w'' \<longrightarrow> length p' \<le> length p''"
    unfolding first_canonical_def by blast
  from a(4) b(1,2) have "length p \<le> length p'" by blast
  moreover from b(4) a(1,2) have "length p' \<le> length p" by blast
  ultimately have "length p = length p'" by simp
  with a(1) b(1) have "w @ q = w' @ q'" by (metis append_eq_append_conv)
  from canonical_prefix_unique [OF a(2) b(2) this a(3) b(3)] show ?thesis .
qed


lemma trimmed_unique:
  assumes "trimmed u t"
  shows "t = trim u"
proof -
  from assms obtain a b where ab: "u = a @ t @ b" "\<forall>c\<in>set a. isWhiteSpace c"
    "\<forall>c\<in>set b. isWhiteSpace c" "t = [] \<or> (\<not> isWhiteSpace (hd t) \<and> \<not> isWhiteSpace (last t))"
    unfolding trimmed_def by blast
  show ?thesis
  proof (cases "t = []")
    case True
    with ab(1,2,3) have "\<forall>c\<in>set u. isWhiteSpace c" by auto
    then have d: "dropWhile isWhiteSpace u = []" by simp
    show ?thesis by (simp only: True trim_def d rev.simps dropWhile.simps)
  next
    case False
    with ab(4) have h: "\<not> isWhiteSpace (hd t)" and l: "\<not> isWhiteSpace (last t)" by simp_all
    from ab(2) have "dropWhile isWhiteSpace u = dropWhile isWhiteSpace (t @ b)"
      by (simp add: ab(1))
    also from False h have "\<dots> = t @ b" by (cases t) auto
    finally have d: "dropWhile isWhiteSpace u = t @ b" .
    have "dropWhile isWhiteSpace (rev b @ rev t) = dropWhile isWhiteSpace (rev t)"
    proof (rule dropWhile_append2)
      fix x assume "x \<in> set (rev b)"
      with ab(3) show "isWhiteSpace x" by simp
    qed
    also from False l have "\<dots> = rev t" by (simp add: dropWhile_eq_self_iff hd_rev)
    finally have "rev (dropWhile isWhiteSpace (rev (t @ b))) = t" by simp
    then show ?thesis by (simp only: trim_def d)
  qed
qed

lemma embedded_no_short:
  "\<not> contains (trim url_embedded) (js ''vm.tiktok.com'') \<and>
   \<not> contains (trim url_embedded) (js ''vt.tiktok.com'')"
  unfolding includes_str_iff [symmetric]
  by (simp add: url_embedded_def js_def trim_def isWhiteSpace_def)

lemma embedded_clean: "cleanTikTokUrl url_embedded = js ''http://tiktok.com/@u/video/12''"
  by (simp add: url_embedded_def cleanTikTokUrl_def js_def trim_def isWhiteSpace_def match_def
      clean_pattern_def scheme_def canonical_tail_def exec_from.simps)

lemma embedded_canonical: "\<exists>w. contains (trim url_embedded) w \<and> canonical_url w"
proof -
  have "match (trim url_embedded) clean_pattern \<noteq> None"
    by (simp add: url_embedded_def js_def trim_def isWhiteSpace_def match_def clean_pattern_def
        scheme_def canonical_tail_def exec_from.simps)
  then show ?thesis by (simp add: match_clean_None)
qed

lemma padded_clean: "cleanTikTokUrl url_padded = js ''https://www.tiktok.com/@user/video/1234567890''"
  unfolding url_padded_def by (rule clean_example)

section \<open>The claims\<close>

text \<open>
  Claim C1, as the code has it. \<open>isValidTikTokUrl(u)\<close> is true exactly when \<open>u\<close>
  starts with \<open>http://\<close> or \<open>https://\<close> followed by one of the four bodies: the canonical
  \<open>tiktok.com/@handle/video/digits\<close> with an optional \<open>www.\<close>, \<open>vm.tiktok.com/\<close> or
  \<open>vt.tiktok.com/\<close> with letters and digits, or \<open>m.tiktok.com/v/digits\<close>. Every other
  string is rejected. The scheme is mandatory; only its \<open>s\<close> is optional.
\<close>

theorem C1_valid_iff_shape: "isValidTikTokUrl u \<longleftrightarrow> url_shape required_scheme u"
  by (rule isValidTikTokUrl_iff)

text \<open>
  Claim C1: a short link with a scheme is valid and has the shape.
\<close>

theorem C1_valid_iff_shape_witness:
  "isValidTikTokUrl (js ''https://vm.tiktok.com/ZMabc123/'') \<and>
   url_shape required_scheme (js ''https://vm.tiktok.com/ZMabc123/'')"
proof -
  have "isValidTikTokUrl (js ''https://vm.tiktok.com/ZMabc123/'')"
    by (simp add: isValidTikTokUrl_def valid_patterns_def test_def js_def match_def scheme_def
        canonical_tail_def exec_from.simps)
  with C1_valid_iff_shape [of "js ''https://vm.tiktok.com/ZMabc123/''"] show ?thesis
    by blast
qed

text \<open>
  Claim C1 as stated takes the scheme to be optional: \<open>tiktok.com/@user/video/1\<close> has the
  canonical shape without a scheme, and \<open>isValidTikTokUrl\<close> rejects it.
\<close>

theorem C1_scheme_optional_counterexample:
  "url_shape optional_scheme (js ''tiktok.com/@user/video/1'') \<and>
   \<not> isValidTikTokUrl (js ''tiktok.com/@user/video/1'')"
proof
  have "[] \<in> optional_scheme" by (simp add: optional_scheme_def)
  moreover have "js ''tiktok.com/@user/video/1'' = [] @ js ''tiktok.com/@user/video/1'' @ []"
    by simp
  ultimately have "starts_with optional_scheme canonical_body (js ''tiktok.com/@user/video/1'')"
    unfolding starts_with_def using canonical_body_example by blast
  then show "url_shape optional_scheme (js ''tiktok.com/@user/video/1'')"
    by (simp add: url_shape_def)
  show "\<not> isValidTikTokUrl (js ''tiktok.com/@user/video/1'')"
    by (simp add: isValidTikTokUrl_def valid_patterns_def test_def js_def match_def scheme_def
      canonical_tail_def exec_from.simps)
qed

text \<open>
  Claim C7. When \<open>includeWatermark\<close> is true, \<open>extractDownloadUrls\<close> returns the video
  and audio URLs without a \<open>watermarkFree\<close> entry, whatever the environment answers, and
  issues no request.
\<close>

theorem C7_includeWatermark_no_mirror:
  "includeWatermark self \<Longrightarrow>
   extractDownloadUrls E self vi =
     ([], Inr \<lparr>video = videoUrl vi, audio = url (music vi), watermarkFree = None\<rparr>)"
  by (rule extractDownloadUrls_watermark)

text \<open>
  Claim C7 for a downloader constructed with \<open>includeWatermark: true\<close>.
\<close>

theorem C7_includeWatermark_no_mirror_witness:
  "includeWatermark (new_TikTokDownloader E_down (no_options\<lparr>opt_includeWatermark := Some True\<rparr>)) \<and>
   extractDownloadUrls E_down
       (new_TikTokDownloader E_down (no_options\<lparr>opt_includeWatermark := Some True\<rparr>)) vi_demo =
     ([], Inr \<lparr>video = videoUrl vi_demo, audio = url (music vi_demo), watermarkFree = None\<rparr>)"
proof -
  have h: "includeWatermark
      (new_TikTokDownloader E_down (no_options\<lparr>opt_includeWatermark := Some True\<rparr>))"
    by (simp add: new_TikTokDownloader_def no_options_def)
  from h C7_includeWatermark_no_mirror [OF h, of E_down vi_demo] show ?thesis by simp
qed

text \<open>
  Claim C9. Every call of \<open>downloadVideo\<close> returns a result envelope, and the envelope
  has exactly one payload: \<open>data\<close> without \<open>error\<close> when \<open>success\<close> is true, \<open>error\<close>
  without \<open>data\<close> when it is false.
\<close>

theorem C9_exactly_one_payload:
  "\<exists>t r. downloadVideo E self u = (t, Inr r) \<and>
     (if success r then data r \<noteq> None \<and> error r = None
      else data r = None \<and> error r \<noteq> None)"
proof (cases "isValidTikTokUrl (cleanTikTokUrl u)")
  case False
  from downloadVideo_invalid [OF this] show ?thesis by (simp add: failure_def)
next
  case valid: True
  show ?thesis
  proof (cases "extractVideoId (cleanTikTokUrl u)")
    case None
    from downloadVideo_no_id [OF valid this] show ?thesis by (simp add: failure_def)
  next
    case (Some v)
    then have ne: "extractVideoId (cleanTikTokUrl u) \<noteq> None" by simp
    obtain r where r: "snd (fetchVideoData E self (cleanTikTokUrl u)) = Inr r"
      using snd_fetchVideoData by blast
    show ?thesis
    proof (cases r)
      case None
      with r downloadVideo_no_data [OF valid ne] show ?thesis by (simp add: failure_def)
    next
      case (Some vi)
      obtain t w where "extractDownloadUrls E self vi =
          (t, Inr \<lparr>video = videoUrl vi, audio = url (music vi), watermarkFree = w\<rparr>)"
        using extractDownloadUrls_eq by blast
      with r Some downloadVideo_data [OF valid ne] show ?thesis by (simp add: succeeded_def)
    qed
  qed
qed


text \<open>
  Claim C9 when the network is down: a failure envelope with \<open>error\<close> and no \<open>data\<close>.
\<close>

theorem C9_exactly_one_payload_witness:
  "downloadVideo E_down (new_TikTokDownloader E_down no_options) url_demo =
     ([page_request (new_TikTokDownloader E_down no_options) url_demo],
      Inr (failure ''Failed to fetch video data''
            (js ''Could not retrieve video information from TikTok''))) \<and>
   (\<exists>t r. downloadVideo E_down (new_TikTokDownloader E_down no_options) url_demo = (t, Inr r) \<and>
     (if success r then data r \<noteq> None \<and> error r = None
      else data r = None \<and> error r \<noteq> None))"
  using C9_exactly_one_payload [of E_down "new_TikTokDownloader E_down no_options" url_demo]
    download_down [of "new_TikTokDownloader E_down no_options"]
  by simp

text \<open>
  Claim C2, as the code has it. \<open>downloadVideo\<close> always returns a result envelope and
  never throws. An exception raised in the fetch step is caught there and reported as
  \<open>Failed to fetch video data\<close> with a fixed detail. The top-level handler turns an
  \<open>Error\<close> that reaches it into a failure envelope with its message as the detail, and any
  other thrown value into one with the detail \<open>Unknown error\<close>.
\<close>

theorem C2_never_throws:
  "(\<exists>t r. downloadVideo E self u = (t, Inr r)) \<and>
   (isValidTikTokUrl (cleanTikTokUrl u) \<and> extractVideoId (cleanTikTokUrl u) \<noteq> None \<and>
    snd (fetchVideoData_try E self (cleanTikTokUrl u)) = Inl e \<longrightarrow>
      downloadVideo E self u =
        ([page_request self (cleanTikTokUrl u)],
         Inr (failure ''Failed to fetch video data''
               (js ''Could not retrieve video information from TikTok'')))) \<and>
   io_try (t0, Inl (ErrorObj msg)) downloadVideo_catch =
     (t0, Inr (failure ''An error occurred while processing the video'' msg)) \<and>
   io_try (t0, Inl (NonError v)) downloadVideo_catch =
     (t0, Inr (failure ''An error occurred while processing the video'' (js ''Unknown error'')))"
proof (intro conjI impI)
  obtain r where "snd (downloadVideo_try E self u) = Inr r"
    using snd_downloadVideo_try by blast
  then show "\<exists>t r. downloadVideo E self u = (t, Inr r)"
    by (metis downloadVideo_no_throw prod.collapse)
next
  assume a: "isValidTikTokUrl (cleanTikTokUrl u) \<and> extractVideoId (cleanTikTokUrl u) \<noteq> None \<and>
    snd (fetchVideoData_try E self (cleanTikTokUrl u)) = Inl e"
  then have "snd (fetchVideoData E self (cleanTikTokUrl u)) = Inr None"
    by (simp add: fetch_throws)
  with a show "downloadVideo E self u =
        ([page_request self (cleanTikTokUrl u)],
         Inr (failure ''Failed to fetch video data''
               (js ''Could not retrieve video information from TikTok'')))"
    by (simp add: downloadVideo_no_data)
next
  show "io_try (t0, Inl (ErrorObj msg)) downloadVideo_catch =
     (t0, Inr (failure ''An error occurred while processing the video'' msg))"
    by (simp add: io_try_def downloadVideo_catch_def io_return_def failure_def)
  show "io_try (t0, Inl (NonError v)) downloadVideo_catch =
     (t0, Inr (failure ''An error occurred while processing the video'' (js ''Unknown error'')))"
    by (simp add: io_try_def downloadVideo_catch_def io_return_def failure_def)
qed

text \<open>
  Claim C2 when the network is down.
\<close>

theorem C2_never_throws_witness:
  "isValidTikTokUrl (cleanTikTokUrl url_demo) \<and> extractVideoId (cleanTikTokUrl url_demo) \<noteq> None \<and>
   snd (fetchVideoData_try E_down (new_TikTokDownloader E_down no_options) (cleanTikTokUrl url_demo)) =
     Inl (ErrorObj (js ''Network Error'')) \<and>
   downloadVideo E_down (new_TikTokDownloader E_down no_options) url_demo =
     ([page_request (new_TikTokDownloader E_down no_options) (cleanTikTokUrl url_demo)],
      Inr (failure ''Failed to fetch video data''
            (js ''Could not retrieve video information from TikTok'')))"
proof -
  have h: "isValidTikTokUrl (cleanTikTokUrl url_demo) \<and>
      extractVideoId (cleanTikTokUrl url_demo) \<noteq> None \<and>
      snd (fetchVideoData_try E_down (new_TikTokDownloader E_down no_options)
            (cleanTikTokUrl url_demo)) = Inl (ErrorObj (js ''Network Error''))"
    by (simp add: url_demo_clean url_demo_valid url_demo_id fetchVideoData_try_def io_bind_def
        http_get_def E_down_def)
  from h C2_never_throws [of E_down "new_TikTokDownloader E_down no_options" url_demo
      "ErrorObj (js ''Network Error'')" "[]" "[]" JNull]
  show ?thesis by simp
qed

text \<open>
  Claim C2 as stated says that any exception raised in the pipeline is caught at the top
  level and that its message is the error detail. A network error is raised in the fetch
  step with the message \<open>Network Error\<close>; the envelope returned carries the fixed detail of
  \<open>fetchVideoData\<close> returning \<open>null\<close>, not that message.
\<close>

theorem C2_exception_message_counterexample:
  "snd (fetchVideoData_try E_down (new_TikTokDownloader E_down no_options) url_demo) =
     Inl (ErrorObj (js ''Network Error'')) \<and>
   downloadVideo E_down (new_TikTokDownloader E_down no_options) url_demo =
     ([page_request (new_TikTokDownloader E_down no_options) url_demo],
      Inr (failure ''Failed to fetch video data''
            (js ''Could not retrieve video information from TikTok''))) \<and>
   js ''Could not retrieve video information from TikTok'' \<noteq> js ''Network Error''"
proof (intro conjI)
  show "snd (fetchVideoData_try E_down (new_TikTokDownloader E_down no_options) url_demo) =
     Inl (ErrorObj (js ''Network Error''))"
    by (simp add: fetchVideoData_try_def io_bind_def http_get_def E_down_def)
  show "downloadVideo E_down (new_TikTokDownloader E_down no_options) url_demo =
     ([page_request (new_TikTokDownloader E_down no_options) url_demo],
      Inr (failure ''Failed to fetch video data''
            (js ''Could not retrieve video information from TikTok'')))"
    by (rule download_down)
  show "js ''Could not retrieve video information from TikTok'' \<noteq> js ''Network Error''"
    by (simp add: js_def)
qed

text \<open>
  Claim C3. The outcome of \<open>downloadVideo\<close>, with the requests issued: an invalid URL
  gives \<open>Invalid TikTok URL provided\<close> and no request; a valid URL without an ID gives
  \<open>Could not extract video ID from URL\<close> and no request; when the fetch yields no data,
  \<open>Failed to fetch video data\<close> after the page request alone; otherwise the success
  envelope, after the page request and the requests of the resolver. The fetch always
  yields data or none.
\<close>

theorem C3_pipeline:
  "(\<not> isValidTikTokUrl (cleanTikTokUrl u) \<longrightarrow>
      downloadVideo E self u =
        ([], Inr (failure ''Invalid TikTok URL provided''
                   (js ''URL format is not recognized as a valid TikTok video URL'')))) \<and>
   (isValidTikTokUrl (cleanTikTokUrl u) \<and> extractVideoId (cleanTikTokUrl u) = None \<longrightarrow>
      downloadVideo E self u =
        ([], Inr (failure ''Could not extract video ID from URL''
                   (js ''Video ID extraction failed'')))) \<and>
   (isValidTikTokUrl (cleanTikTokUrl u) \<and> extractVideoId (cleanTikTokUrl u) \<noteq> None \<and>
    snd (fetchVideoData E self (cleanTikTokUrl u)) = Inr None \<longrightarrow>
      downloadVideo E self u =
        ([page_request self (cleanTikTokUrl u)],
         Inr (failure ''Failed to fetch video data''
               (js ''Could not retrieve video information from TikTok'')))) \<and>
   (isValidTikTokUrl (cleanTikTokUrl u) \<and> extractVideoId (cleanTikTokUrl u) \<noteq> None \<and>
    snd (fetchVideoData E self (cleanTikTokUrl u)) = Inr (Some vi) \<longrightarrow>
      (\<exists>t urls. extractDownloadUrls E self vi = (t, Inr urls) \<and>
         downloadVideo E self u =
           (page_request self (cleanTikTokUrl u) # t, Inr (succeeded vi urls)))) \<and>
   (\<exists>r. snd (fetchVideoData E self (cleanTikTokUrl u)) = Inr r)"
proof (intro conjI impI)
  assume "\<not> isValidTikTokUrl (cleanTikTokUrl u)"
  then show "downloadVideo E self u =
        ([], Inr (failure ''Invalid TikTok URL provided''
                   (js ''URL format is not recognized as a valid TikTok video URL'')))"
    by (rule downloadVideo_invalid)
next
  assume "isValidTikTokUrl (cleanTikTokUrl u) \<and> extractVideoId (cleanTikTokUrl u) = None"
  then show "downloadVideo E self u =
        ([], Inr (failure ''Could not extract video ID from URL''
                   (js ''Video ID extraction failed'')))"
    by (simp add: downloadVideo_no_id)
next
  assume "isValidTikTokUrl (cleanTikTokUrl u) \<and> extractVideoId (cleanTikTokUrl u) \<noteq> None \<and>
    snd (fetchVideoData E self (cleanTikTokUrl u)) = Inr None"
  then show "downloadVideo E self u =
        ([page_request self (cleanTikTokUrl u)],
         Inr (failure ''Failed to fetch video data''
               (js ''Could not retrieve video information from TikTok'')))"
    by (simp add: downloadVideo_no_data)
next
  assume a: "isValidTikTokUrl (cleanTikTokUrl u) \<and> extractVideoId (cleanTikTokUrl u) \<noteq> None \<and>
    snd (fetchVideoData E self (cleanTikTokUrl u)) = Inr (Some vi)"
  obtain t w where x: "extractDownloadUrls E self vi =
      (t, Inr \<lparr>video = videoUrl vi, audio = url (music vi), watermarkFree = w\<rparr>)"
    using extractDownloadUrls_eq by blast
  from a downloadVideo_data [OF _ _ _ x, of u] x
  show "\<exists>t urls. extractDownloadUrls E self vi = (t, Inr urls) \<and>
         downloadVideo E self u =
           (page_request self (cleanTikTokUrl u) # t, Inr (succeeded vi urls))"
    by simp
next
  show "\<exists>r. snd (fetchVideoData E self (cleanTikTokUrl u)) = Inr r"
    by (rule snd_fetchVideoData)
qed

text \<open>
  Claim C3 on one input for each of the four outcomes.
\<close>

theorem C3_pipeline_witness:
  "(\<not> isValidTikTokUrl (cleanTikTokUrl url_junk) \<and>
    downloadVideo E_down (new_TikTokDownloader E_down no_options) url_junk =
      ([], Inr (failure ''Invalid TikTok URL provided''
                 (js ''URL format is not recognized as a valid TikTok video URL'')))) \<and>
   (isValidTikTokUrl (cleanTikTokUrl url_short) \<and> extractVideoId (cleanTikTokUrl url_short) = None \<and>
    downloadVideo E_down (new_TikTokDownloader E_down no_options) url_short =
      ([], Inr (failure ''Could not extract video ID from URL''
                 (js ''Video ID extraction failed'')))) \<and>
   (isValidTikTokUrl (cleanTikTokUrl url_demo) \<and> extractVideoId (cleanTikTokUrl url_demo) \<noteq> None \<and>
    snd (fetchVideoData E_down (new_TikTokDownloader E_down no_options) (cleanTikTokUrl url_demo)) =
      Inr None \<and>
    downloadVideo E_down (new_TikTokDownloader E_down no_options) url_demo =
      ([page_request (new_TikTokDownloader E_down no_options) (cleanTikTokUrl url_demo)],
       Inr (failure ''Failed to fetch video data''
             (js ''Could not retrieve video information from TikTok'')))) \<and>
   (snd (fetchVideoData E_demo (new_TikTokDownloader E_demo no_options) (cleanTikTokUrl url_demo)) =
      Inr (Some vi_demo) \<and>
    (\<exists>t urls. extractDownloadUrls E_demo (new_TikTokDownloader E_demo no_options) vi_demo =
         (t, Inr urls) \<and>
       downloadVideo E_demo (new_TikTokDownloader E_demo no_options) url_demo =
         (page_request (new_TikTokDownloader E_demo no_options) (cleanTikTokUrl url_demo) # t,
          Inr (succeeded vi_demo urls))))"
proof -
  let ?d = "new_TikTokDownloader E_down no_options"
  let ?e = "new_TikTokDownloader E_demo no_options"
  have h1: "\<not> isValidTikTokUrl (cleanTikTokUrl url_junk)" by (rule url_junk_invalid)
  have h2: "isValidTikTokUrl (cleanTikTokUrl url_short) \<and>
      extractVideoId (cleanTikTokUrl url_short) = None"
    by (simp add: url_short_clean url_short_valid url_short_no_id)
  have h3: "isValidTikTokUrl (cleanTikTokUrl url_demo) \<and>
      extractVideoId (cleanTikTokUrl url_demo) \<noteq> None"
    by (simp add: url_demo_clean url_demo_valid url_demo_id)
  have h4: "snd (fetchVideoData E_down ?d (cleanTikTokUrl url_demo)) = Inr None"
    by (rule fetch_down)
  have h5: "snd (fetchVideoData E_demo ?e (cleanTikTokUrl url_demo)) = Inr (Some vi_demo)"
    by (simp add: url_demo_clean fetch_demo)
  from h1 h2 h3 h4 h5
    C3_pipeline [of url_junk E_down ?d vi_demo]
    C3_pipeline [of url_short E_down ?d vi_demo]
    C3_pipeline [of url_demo E_down ?d vi_demo]
    C3_pipeline [of url_demo E_demo ?e vi_demo]
  show ?thesis by simp
qed



text \<open>
  Claim C8. With \<open>includeWatermark\<close> false, when the pipeline has fetched the video data
  and the mirror API fails, \<open>downloadVideo\<close> returns the success envelope with the video and
  audio URLs and no \<open>watermarkFree\<close> entry, after the page request and the one mirror
  request.
\<close>

theorem C8_mirror_failure_is_success:
  assumes "\<not> includeWatermark self"
    and "isValidTikTokUrl (cleanTikTokUrl u)"
    and "extractVideoId (cleanTikTokUrl u) \<noteq> None"
    and "snd (fetchVideoData E self (cleanTikTokUrl u)) = Inr (Some vi)"
    and "mirror_fails E (api_request E self (video_id vi))"
  shows "downloadVideo E self u =
     ([page_request self (cleanTikTokUrl u), api_request E self (video_id vi)],
      Inr (succeeded vi \<lparr>video = videoUrl vi, audio = url (music vi), watermarkFree = None\<rparr>))"
  using downloadVideo_data [OF assms(2,3,4) extractDownloadUrls_fails [OF assms(1,5)]] .

text \<open>
  Claim C8 where the page is served and the mirror request throws.
\<close>

theorem C8_mirror_failure_is_success_witness:
  "\<not> includeWatermark (new_TikTokDownloader E_demo no_options) \<and>
   isValidTikTokUrl (cleanTikTokUrl url_demo) \<and>
   extractVideoId (cleanTikTokUrl url_demo) \<noteq> None \<and>
   snd (fetchVideoData E_demo (new_TikTokDownloader E_demo no_options) (cleanTikTokUrl url_demo)) =
     Inr (Some vi_demo) \<and>
   mirror_fails E_demo (api_request E_demo (new_TikTokDownloader E_demo no_options) (video_id vi_demo)) \<and>
   downloadVideo E_demo (new_TikTokDownloader E_demo no_options) url_demo =
     ([page_request (new_TikTokDownloader E_demo no_options) (cleanTikTokUrl url_demo),
       api_request E_demo (new_TikTokDownloader E_demo no_options) (video_id vi_demo)],
      Inr (succeeded vi_demo \<lparr>video = videoUrl vi_demo, audio = url (music vi_demo),
                             watermarkFree = None\<rparr>))"
proof -
  let ?d = "new_TikTokDownloader E_demo no_options"
  have h1: "\<not> includeWatermark ?d" by (simp add: new_TikTokDownloader_def no_options_def)
  have h2: "isValidTikTokUrl (cleanTikTokUrl url_demo)" by (simp add: url_demo_clean url_demo_valid)
  have h3: "extractVideoId (cleanTikTokUrl url_demo) \<noteq> None" by (simp add: url_demo_clean url_demo_id)
  have h4: "snd (fetchVideoData E_demo ?d (cleanTikTokUrl url_demo)) = Inr (Some vi_demo)"
    by (simp add: url_demo_clean fetch_demo)
  have h5: "mirror_fails E_demo (api_request E_demo ?d (video_id vi_demo))"
    by (rule mirror_fails_demo)
  from h1 h2 h3 h4 h5 C8_mirror_failure_is_success [OF h1 h2 h3 h4 h5] show ?thesis by simp
qed

text \<open>
  Claim C4. \<open>cleanTikTokUrl\<close> trims the white space around its argument: \<open>trim u\<close> is
  the one string that is \<open>u\<close> without the white space around it. When the trimmed string
  contains \<open>vm.tiktok.com\<close> or \<open>vt.tiktok.com\<close> it is the result. Otherwise, when a
  substring of it is a canonical URL (scheme and \<open>www.\<close> optional), the result is that
  matched substring alone: the canonical URL at the leftmost index where one starts, with
  every digit of its video ID, and no other string is that; when no substring is a
  canonical URL, the result is the trimmed string. The padded URL of the example is
  normalised to the URL without the padding.
\<close>

theorem C4_cleanTikTokUrl:
  "trimmed u (trim u) \<and> (\<forall>t. trimmed u t \<longrightarrow> t = trim u) \<and>
   (contains (trim u) (js ''vm.tiktok.com'') \<or> contains (trim u) (js ''vt.tiktok.com'') \<longrightarrow>
      cleanTikTokUrl u = trim u) \<and>
   (\<not> contains (trim u) (js ''vm.tiktok.com'') \<and> \<not> contains (trim u) (js ''vt.tiktok.com'') \<and>
    (\<exists>w. contains (trim u) w \<and> canonical_url w) \<longrightarrow>
      contains (trim u) (cleanTikTokUrl u) \<and> canonical_url (cleanTikTokUrl u) \<and>
      first_canonical (trim u) (cleanTikTokUrl u) \<and>
      (\<forall>w. first_canonical (trim u) w \<longrightarrow> w = cleanTikTokUrl u)) \<and>
   (\<not> contains (trim u) (js ''vm.tiktok.com'') \<and> \<not> contains (trim u) (js ''vt.tiktok.com'') \<and>
    \<not> (\<exists>w. contains (trim u) w \<and> canonical_url w) \<longrightarrow>
      cleanTikTokUrl u = trim u) \<and>
   cleanTikTokUrl (js ''  https://www.tiktok.com/@user/video/1234567890  '') =
     js ''https://www.tiktok.com/@user/video/1234567890''"
proof (intro conjI impI allI)
  show "trimmed u (trim u)" by (rule trim_trimmed)
next
  fix t assume "trimmed u t"
  then show "t = trim u" by (rule trimmed_unique)
next
  assume "contains (trim u) (js ''vm.tiktok.com'') \<or> contains (trim u) (js ''vt.tiktok.com'')"
  then show "cleanTikTokUrl u = trim u"
    by (simp add: cleanTikTokUrl_def includes_str_iff)
next
  assume a: "\<not> contains (trim u) (js ''vm.tiktok.com'') \<and>
    \<not> contains (trim u) (js ''vt.tiktok.com'') \<and> (\<exists>w. contains (trim u) w \<and> canonical_url w)"
  then obtain mt where mt: "match (trim u) clean_pattern = Some mt"
    using match_clean_None [of "trim u"] by auto
  with a have c: "cleanTikTokUrl u = match0 mt"
    by (simp add: cleanTikTokUrl_def includes_str_iff)
  from match_clean_Some [OF mt] c show "contains (trim u) (cleanTikTokUrl u)" by simp
  from match_clean_Some [OF mt] c show "canonical_url (cleanTikTokUrl u)" by simp
  from match_clean_first [OF mt] c show f: "first_canonical (trim u) (cleanTikTokUrl u)" by simp
  fix w assume "first_canonical (trim u) w"
  from first_canonical_unique [OF this f] show "w = cleanTikTokUrl u" .
next
  assume a: "\<not> contains (trim u) (js ''vm.tiktok.com'') \<and>
    \<not> contains (trim u) (js ''vt.tiktok.com'') \<and> \<not> (\<exists>w. contains (trim u) w \<and> canonical_url w)"
  then have "match (trim u) clean_pattern = None" by (simp add: match_clean_None)
  with a show "cleanTikTokUrl u = trim u"
    by (simp add: cleanTikTokUrl_def includes_str_iff)
next
  show "cleanTikTokUrl (js ''  https://www.tiktok.com/@user/video/1234567890  '') =
     js ''https://www.tiktok.com/@user/video/1234567890''"
    by (rule clean_example)
qed

text \<open>
  Claim C4 on a padded short link, a padded canonical URL, a canonical URL inside other
  text (the result keeps its scheme) and a string that carries none.
\<close>

theorem C4_cleanTikTokUrl_witness:
  "(contains (trim url_short_padded) (js ''vt.tiktok.com'') \<and>
    cleanTikTokUrl url_short_padded = js ''https://vt.tiktok.com/ZSxyz789/'') \<and>
   (\<not> contains (trim url_padded) (js ''vm.tiktok.com'') \<and>
    \<not> contains (trim url_padded) (js ''vt.tiktok.com'') \<and>
    (\<exists>w. contains (trim url_padded) w \<and> canonical_url w) \<and>
    cleanTikTokUrl url_padded = js ''https://www.tiktok.com/@user/video/1234567890'' \<and>
    first_canonical (trim url_padded) (js ''https://www.tiktok.com/@user/video/1234567890'') \<and>
    canonical_url (js ''https://www.tiktok.com/@user/video/1234567890'')) \<and>
   (\<not> contains (trim url_embedded) (js ''vm.tiktok.com'') \<and>
    \<not> contains (trim url_embedded) (js ''vt.tiktok.com'') \<and>
    (\<exists>w. contains (trim url_embedded) w \<and> canonical_url w) \<and>
    cleanTikTokUrl url_embedded = js ''http://tiktok.com/@u/video/12'' \<and>
    first_canonical (trim url_embedded) (js ''http://tiktok.com/@u/video/12'') \<and>
    \<not> first_canonical (trim url_embedded) (js ''tiktok.com/@u/video/12'')) \<and>
   (\<not> contains (trim url_junk) (js ''vm.tiktok.com'') \<and>
    \<not> contains (trim url_junk) (js ''vt.tiktok.com'') \<and>
    \<not> (\<exists>w. contains (trim url_junk) w \<and> canonical_url w) \<and>
    cleanTikTokUrl url_junk = js ''hello'')"
proof -
  have t1: "trim url_short_padded = js ''https://vt.tiktok.com/ZSxyz789/''"
    by (simp add: url_short_padded_def js_def trim_def isWhiteSpace_def)
  have t3: "trim url_junk = js ''hello''"
    by (simp add: url_junk_def js_def trim_def isWhiteSpace_def)
  have n: "js ''tiktok.com/@u/video/12'' \<noteq> js ''http://tiktok.com/@u/video/12''"
    by (simp add: js_def)
  from C4_cleanTikTokUrl [of url_short_padded] short_padded_contains
  have "cleanTikTokUrl url_short_padded = trim url_short_padded" by blast
  with t1 short_padded_contains
  have A: "contains (trim url_short_padded) (js ''vt.tiktok.com'') \<and>
    cleanTikTokUrl url_short_padded = js ''https://vt.tiktok.com/ZSxyz789/''"
    by simp
  from C4_cleanTikTokUrl [of url_padded] padded_no_short padded_canonical
  have "first_canonical (trim url_padded) (cleanTikTokUrl url_padded) \<and>
    canonical_url (cleanTikTokUrl url_padded)"
    by blast
  with padded_no_short padded_canonical padded_clean
  have B: "\<not> contains (trim url_padded) (js ''vm.tiktok.com'') \<and>
    \<not> contains (trim url_padded) (js ''vt.tiktok.com'') \<and>
    (\<exists>w. contains (trim url_padded) w \<and> canonical_url w) \<and>
    cleanTikTokUrl url_padded = js ''https://www.tiktok.com/@user/video/1234567890'' \<and>
    first_canonical (trim url_padded) (js ''https://www.tiktok.com/@user/video/1234567890'') \<and>
    canonical_url (js ''https://www.tiktok.com/@user/video/1234567890'')"
    by simp
  from C4_cleanTikTokUrl [of url_embedded] embedded_no_short embedded_canonical
  have e: "first_canonical (trim url_embedded) (cleanTikTokUrl url_embedded) \<and>
    (\<forall>w. first_canonical (trim url_embedded) w \<longrightarrow> w = cleanTikTokUrl url_embedded)"
    by blast
  with n have "\<not> first_canonical (trim url_embedded) (js ''tiktok.com/@u/video/12'')"
    unfolding embedded_clean by blast
  with e embedded_no_short embedded_canonical embedded_clean
  have C: "\<not> contains (trim url_embedded) (js ''vm.tiktok.com'') \<and>
    \<not> contains (trim url_embedded) (js ''vt.tiktok.com'') \<and>
    (\<exists>w. contains (trim url_embedded) w \<and> canonical_url w) \<and>
    cleanTikTokUrl url_embedded = js ''http://tiktok.com/@u/video/12'' \<and>
    first_canonical (trim url_embedded) (js ''http://tiktok.com/@u/video/12'') \<and>
    \<not> first_canonical (trim url_embedded) (js ''tiktok.com/@u/video/12'')"
    by simp
  from C4_cleanTikTokUrl [of url_junk] junk_no_short junk_not_canonical
  have "cleanTikTokUrl url_junk = trim url_junk" by blast
  with t3 junk_no_short junk_not_canonical
  have D: "\<not> contains (trim url_junk) (js ''vm.tiktok.com'') \<and>
    \<not> contains (trim url_junk) (js ''vt.tiktok.com'') \<and>
    \<not> (\<exists>w. contains (trim url_junk) w \<and> canonical_url w) \<and>
    cleanTikTokUrl url_junk = js ''hello''"
    by simp
  from A B C D show ?thesis by (intro conjI) (elim conjE, assumption)+
qed

text \<open>
  Claim C5. \<open>extractVideoId\<close> returns the digits captured by the first of the patterns
  \<open>/video/(digits)\<close>, \<open>/v/(digits)\<close>, \<open>video_id=(digits)\<close> that matches somewhere in the
  URL, and \<open>null\<close> when none of them does.
\<close>

theorem C5_extractVideoId:
  "(has_id ''/video/'' u \<longrightarrow>
      (\<exists>ds. extractVideoId u = Some ds \<and> captures ''/video/'' u ds)) \<and>
   (\<not> has_id ''/video/'' u \<and> has_id ''/v/'' u \<longrightarrow>
      (\<exists>ds. extractVideoId u = Some ds \<and> captures ''/v/'' u ds)) \<and>
   (\<not> has_id ''/video/'' u \<and> \<not> has_id ''/v/'' u \<and> has_id ''video_id='' u \<longrightarrow>
      (\<exists>ds. extractVideoId u = Some ds \<and> captures ''video_id='' u ds)) \<and>
   (\<not> has_id ''/video/'' u \<and> \<not> has_id ''/v/'' u \<and> \<not> has_id ''video_id='' u \<longrightarrow>
      extractVideoId u = None)"
  using extractVideoId_first [of u] extractVideoId_second [of u] extractVideoId_third [of u]
    extractVideoId_none [of u]
  by simp

text \<open>
  Claim C5 on one URL for each pattern and one without an ID.
\<close>

theorem C5_extractVideoId_witness:
  "(has_id ''/video/'' url_canonical \<and> extractVideoId url_canonical = Some (js ''1234567890'') \<and>
    captures ''/video/'' url_canonical (js ''1234567890'')) \<and>
   (\<not> has_id ''/video/'' url_mobile \<and> has_id ''/v/'' url_mobile \<and>
    extractVideoId url_mobile = Some (js ''777'') \<and> captures ''/v/'' url_mobile (js ''777'')) \<and>
   (\<not> has_id ''/video/'' url_query \<and> \<not> has_id ''/v/'' url_query \<and>
    has_id ''video_id='' url_query \<and> extractVideoId url_query = Some (js ''42'') \<and>
    captures ''video_id='' url_query (js ''42'')) \<and>
   (\<not> has_id ''/video/'' url_short \<and> \<not> has_id ''/v/'' url_short \<and>
    \<not> has_id ''video_id='' url_short \<and> extractVideoId url_short = None)"
  using url_canonical_id url_mobile_id url_query_id url_short_ids
    C5_extractVideoId [of url_canonical] C5_extractVideoId [of url_mobile]
    C5_extractVideoId [of url_query] C5_extractVideoId [of url_short]
  by simp

text \<open>
  Claim C10. For a short link (a string that starts with a scheme and a \<open>vm.tiktok.com\<close> or
  \<open>vt.tiktok.com\<close> body) in which none of the three ID patterns matches,
  \<open>downloadVideo\<close> returns the failure envelope \<open>Could not extract video ID from URL\<close>
  and issues no request.
\<close>

theorem C10_short_link_without_id:
  assumes "short_link u"
    and "\<not> has_id ''/video/'' u" and "\<not> has_id ''/v/'' u" and "\<not> has_id ''video_id='' u"
  shows "downloadVideo E self u =
     ([], Inr (failure ''Could not extract video ID from URL'' (js ''Video ID extraction failed'')))"
proof -
  from assms(1) have s: "short_link (trim u)" by (rule short_link_trim)
  from short_link_contains [OF s] have c: "cleanTikTokUrl u = trim u"
    by (auto simp: cleanTikTokUrl_def includes_str_iff)
  from s have v: "isValidTikTokUrl (cleanTikTokUrl u)" by (simp add: c short_link_valid)
  from assms(2,3,4) have "\<not> has_id ''/video/'' (trim u)" "\<not> has_id ''/v/'' (trim u)"
    "\<not> has_id ''video_id='' (trim u)"
    using has_id_trim by blast+
  then have "extractVideoId (cleanTikTokUrl u) = None" by (simp add: c extractVideoId_none)
  with v show ?thesis by (rule downloadVideo_no_id)
qed

text \<open>
  Claim C10 on \<open>https://vm.tiktok.com/ZMabc123/\<close>, although the environment would serve
  a page.
\<close>

theorem C10_short_link_without_id_witness:
  "short_link url_short \<and> \<not> has_id ''/video/'' url_short \<and> \<not> has_id ''/v/'' url_short \<and>
   \<not> has_id ''video_id='' url_short \<and>
   downloadVideo E_demo (new_TikTokDownloader E_demo no_options) url_short =
     ([], Inr (failure ''Could not extract video ID from URL'' (js ''Video ID extraction failed'')))"
proof -
  have h1: "short_link url_short" by (rule url_short_is_short)
  have h2: "\<not> has_id ''/video/'' url_short" and h3: "\<not> has_id ''/v/'' url_short"
    and h4: "\<not> has_id ''video_id='' url_short"
    using url_short_ids by simp_all
  from h1 h2 h3 h4
    C10_short_link_without_id [OF h1 h2 h3 h4, of E_demo "new_TikTokDownloader E_demo no_options"]
  show ?thesis by simp
qed

end
